theory Spec2Isabelle
  imports Main
begin

section \<open>Time, errors and the request environment\<close>

text \<open>
  A \<open>time.Time\<close> is the number of nanoseconds since Go's zero time (January 1, year 1, UTC),
  so \<open>time.Time{}\<close> is \<open>0\<close>; a \<open>time.Duration\<close> is a number of nanoseconds in the
  range of an \<open>int64\<close>. \<open>Time.Sub\<close> saturates at the largest and smallest duration, as
  the standard library documents. The wall clock of a running service lies after the Unix
  epoch, which is more than the largest duration away from the zero time.
\<close>

type_synonym time = int
type_synonym duration = int

definition maxDuration :: duration where
  "maxDuration = 2 ^ 63 - 1"

definition minDuration :: duration where
  "minDuration = - (2 ^ 63)"

definition Second :: duration where
  "Second = 1000000000"

definition Millisecond :: duration where
  "Millisecond = 1000000"

definition Minute :: duration where
  "Minute = 60 * Second"

definition Hour :: duration where
  "Hour = 60 * Minute"

definition unix_epoch :: time where
  "unix_epoch = 62135596800 * Second"

definition time_Sub :: "time \<Rightarrow> time \<Rightarrow> duration" where
  "time_Sub t u =
     (if t - u > maxDuration then maxDuration
      else if t - u < minDuration then minDuration
      else t - u)"

definition time_Add :: "time \<Rightarrow> duration \<Rightarrow> time" where
  "time_Add t d = t + d"

definition IsZero :: "time \<Rightarrow> bool" where
  "IsZero t = (t = 0)"

text \<open>
  Go's \<open>/\<close> on integers truncates toward zero.
\<close>

definition quo :: "int \<Rightarrow> int \<Rightarrow> int" where
  "quo a b = (if 0 \<le> a then a div b else - ((- a) div b))"

text \<open>
  A Go \<open>error\<close> is kept with its message structure: \<open>Errorf m\<close> is \<open>fmt.Errorf(m)\<close>,
  \<open>Wrapf m e\<close> is \<open>fmt.Errorf(m + ": %w", e)\<close>, and \<open>Driver m\<close> is an error a driver or
  library returned (database/sql, go-redis, crypto/rand, the JWT library). \<open>Error\<close> is the
  method \<open>err.Error()\<close>, which the controller compares with a literal.
\<close>

datatype error = Errorf string | Wrapf string error | Driver string

fun Error :: "error \<Rightarrow> string" where
  "Error (Errorf m) = m"
| "Error (Wrapf m e) = m @ '': '' @ Error e"
| "Error (Driver m) = m"

text \<open>
  The external calls of one request, by call site. The environment of a request says which of
  them fail (with the driver's message), what the clock reads, what the random source
  returns, and which pending goroutines the Go scheduler runs while the request is between
  two of its commands (\<open>env_sched\<close>, by position in the list of pending goroutines). A
  request is handled at one instant: every \<open>time.Now()\<close> and \<open>CURRENT_TIMESTAMP\<close> of
  one call reads \<open>env_now\<close>. A failed store call leaves the store as it was.
\<close>

datatype call =
    RL_Get_Check | Rand_Int | Rand_Read | DB_Insert_OTP | RL_Get_Update | RL_Set
  | DB_Select_OTP | DB_Update_OTP | DB_Select_User | DB_Insert_User | DB_Update_User
  | DB_Delete_OTP | Redis_Keys | Redis_Set_Token | Redis_SAdd_Token | Redis_Get_Token
  | Redis_Del_Token

record env =
  env_now :: time
  env_fault :: "call \<Rightarrow> string option"
  env_rand_int :: nat
  env_rand_bytes :: string
  env_sched :: "nat list"

record Config =
  OTP_Length :: int
  OTP_ExpirationTime :: duration
  RateLimit_MaxRequests :: int
  RateLimit_WindowDuration :: duration
  JWT_Secret :: string
  JWT_ExpirationTime :: duration

section \<open>Strings\<close>

text \<open>
  A Go string is a sequence of bytes. \<open>itoa\<close> prints a natural number in decimal.
  \<open>RuneCountInString\<close> is the UTF-8 decoder's count, in which a byte that starts no
  valid sequence is a rune of its own. \<open>utf8_chars\<close> splits a string into its UTF-8
  characters the way PostgreSQL reads a text parameter: there is no result when the string
  holds a byte that starts no valid sequence, or the byte zero.
\<close>

definition digit_char :: "nat \<Rightarrow> char" where
  "digit_char n = ''0123456789abcdef'' ! n"

fun itoa :: "nat \<Rightarrow> string" where
  "itoa n = (if n < 10 then [digit_char n]
             else itoa (n div 10) @ [digit_char (n mod 10)])"

declare itoa.simps [simp del]

definition continuation :: "nat \<Rightarrow> nat \<Rightarrow> string \<Rightarrow> nat \<Rightarrow> bool" where
  "continuation lo hi s i = (i < length s \<and> lo \<le> (of_char (s ! i) :: nat) \<and> (of_char (s ! i) :: nat) \<le> hi)"

definition rune_size :: "char \<Rightarrow> string \<Rightarrow> nat" where
  "rune_size c rest =
     (let b = (of_char c :: nat);
          size = (if 194 \<le> b \<and> b \<le> 223 then 2
                  else if 224 \<le> b \<and> b \<le> 239 then 3
                  else if 240 \<le> b \<and> b \<le> 244 then 4
                  else 1);
          lo = (if b = 224 then 160 else if b = 240 then 144 else 128);
          hi = (if b = 237 then 159 else if b = 244 then 143 else 191)
      in if size = 1 \<or> length rest < size - 1 then 1
         else if \<not> continuation lo hi rest 0 then 1
         else if size = 2 then 2
         else if \<not> continuation 128 191 rest 1 then 1
         else if size = 3 then 3
         else if \<not> continuation 128 191 rest 2 then 1
         else 4)"

function RuneCountInString :: "string \<Rightarrow> nat" where
  "RuneCountInString [] = 0"
| "RuneCountInString (c # rest) = Suc (RuneCountInString (drop (rune_size c rest - 1) rest))"
  by pat_completeness auto
termination
  by (relation "measure length") auto

function utf8_chars :: "string \<Rightarrow> string list option" where
  "utf8_chars [] = Some []"
| "utf8_chars (c # rest) =
     (let n = rune_size c rest in
      if (of_char c :: nat) = 0 \<or> (n = 1 \<and> 128 \<le> (of_char c :: nat)) then None
      else map_option ((#) (c # take (n - 1) rest)) (utf8_chars (drop (n - 1) rest)))"
  by pat_completeness auto
termination
  by (relation "measure length") auto

section \<open>Phone number validator (validator/validator.go)\<close>

text \<open>
  \<open>validatePhoneNumber\<close> compiles the pattern \<^verbatim>\<open>^\+[1-9]\d{6,14}$\<close> and calls
  \<open>MatchString\<close>. The pattern is kept as a syntax tree of the operators it uses, and
  \<open>MatchString\<close> is the unanchored search of Go's regexp package: a match may start at any
  offset, \<^verbatim>\<open>^\<close> holds at the beginning of the text only and \<^verbatim>\<open>$\<close> at its end
  only (no multi-line flag), and \<^verbatim>\<open>\d\<close> is the ASCII class 0-9. A position is the
  flag "at the beginning of the text" with the input still to read; \<open>run r p\<close> lists the
  positions where a match of \<open>r\<close> that starts at \<open>p\<close> can end. Strings are byte strings; no
  byte of a multi-byte UTF-8 sequence is an ASCII character, so matching bytes agrees with
  matching runes for this pattern.
\<close>

datatype regex =
    BeginText | EndText | Lit char | Range char char | Cat regex regex | Repeat regex nat nat

type_synonym pos = "bool \<times> string"

fun rep :: "(pos \<Rightarrow> pos list) \<Rightarrow> nat \<Rightarrow> nat \<Rightarrow> pos \<Rightarrow> pos list" where
  "rep m lo 0 p = (if lo = 0 then [p] else [])"
| "rep m lo (Suc hi) p =
     (if lo = 0 then [p] else []) @ concat (map (rep m (lo - 1) hi) (m p))"

primrec run :: "regex \<Rightarrow> pos \<Rightarrow> pos list" where
  "run BeginText p = (if fst p then [p] else [])"
| "run EndText p = (if snd p = [] then [p] else [])"
| "run (Lit c) p =
     (case snd p of [] \<Rightarrow> [] | x # xs \<Rightarrow> if x = c then [(False, xs)] else [])"
| "run (Range a b) p =
     (case snd p of [] \<Rightarrow> []
      | x # xs \<Rightarrow>
          if (of_char a :: nat) \<le> of_char x \<and> (of_char x :: nat) \<le> of_char b
          then [(False, xs)] else [])"
| "run (Cat r s) p = concat (map (run s) (run r p))"
| "run (Repeat r lo hi) p = rep (run r) lo hi p"

definition MatchString :: "regex \<Rightarrow> string \<Rightarrow> bool" where
  "MatchString re s = list_ex (\<lambda>i. run re (i = 0, drop i s) \<noteq> []) [0..<Suc (length s)]"

definition phoneRegex :: regex where
  "phoneRegex =
     Cat BeginText (Cat (Lit CHR ''+'') (Cat (Range CHR ''1'' CHR ''9'')
       (Cat (Repeat (Range CHR ''0'' CHR ''9'') 6 14) EndText)))"

definition validatePhoneNumber :: "string \<Rightarrow> bool" where
  "validatePhoneNumber phoneNumber = MatchString phoneRegex phoneNumber"

text \<open>
  The format in the specification's words: a leading \<open>+\<close>, a first digit 1 to 9, then 6 to
  14 more digits, and nothing else.
\<close>

definition is_digit :: "char \<Rightarrow> bool" where
  "is_digit c = (48 \<le> (of_char c :: nat) \<and> (of_char c :: nat) \<le> 57)"

definition phone_number_format :: "string \<Rightarrow> bool" where
  "phone_number_format s =
     (case s of
        p # d # ds \<Rightarrow>
          p = CHR ''+'' \<and> is_digit d \<and> d \<noteq> CHR ''0'' \<and>
          list_all is_digit ds \<and> 6 \<le> length ds \<and> length ds \<le> 14
      | _ \<Rightarrow> False)"

section \<open>Relational store (repository/user_repository.go)\<close>

text \<open>
  The tables \<open>otps\<close> and \<open>users\<close> are lists of rows in insertion order, each with its
  \<open>SERIAL\<close> sequence. The migrations declare \<open>otps.session_token\<close> and
  \<open>users.phone_number\<close> \<open>UNIQUE\<close>: an insert that repeats a value fails with the
  driver's unique-violation error, after the sequence has given out its value. The columns
  \<open>phone_number\<close>, \<open>code\<close> and \<open>session_token\<close> are \<open>VARCHAR(15)\<close>,
  \<open>VARCHAR(10)\<close> and \<open>VARCHAR(255)\<close>: \<open>varchar n\<close> is what PostgreSQL stores for a
  value, counting characters; a longer value is an error unless everything past the limit is
  spaces, which are cut off. \<open>RETURNING\<close> hands back the row as stored. The only phone
  number the service inserts into \<open>users\<close> is the one of a stored challenge, which has
  passed the column of the same width. Every other way a statement can fail (connectivity, a
  query parameter the server cannot read as text) is a fault of the request environment.
\<close>

record OTP =
  otp_ID :: int
  otp_PhoneNumber :: string
  otp_Code :: string
  otp_SessionToken :: string
  otp_ExpiresAt :: time
  otp_IsUsed :: bool
  otp_CreatedAt :: time
  otp_UsedAt :: "time option"

record User =
  user_ID :: int
  user_PhoneNumber :: string
  user_RegisteredAt :: time
  user_LastLoginAt :: "time option"
  user_IsActive :: bool

record db =
  otps :: "OTP list"
  otps_id_seq :: int
  users :: "User list"
  users_id_seq :: int

definition unique_violation :: string where
  "unique_violation = ''pq: duplicate key value violates unique constraint''"

definition invalid_byte_sequence :: string where
  "invalid_byte_sequence = ''pq: invalid byte sequence for encoding UTF8''"

definition value_too_long :: "nat \<Rightarrow> string" where
  "value_too_long n = ''pq: value too long for type character varying('' @ itoa n @ '')''"

definition varchar :: "nat \<Rightarrow> string \<Rightarrow> string + string" where
  "varchar n s =
     (case utf8_chars s of
        None \<Rightarrow> Inl invalid_byte_sequence
      | Some cs \<Rightarrow>
          if length cs \<le> n then Inr s
          else if list_all (\<lambda>c. c = '' '') (drop n cs) then Inr (concat (take n cs))
          else Inl (value_too_long n))"

text \<open>
  The server reads all parameters of an \<open>INSERT\<close> as text first, then fits each to its
  column, in column order.
\<close>

definition otp_Create :: "env \<Rightarrow> OTP \<Rightarrow> db \<Rightarrow> (error + OTP) \<times> db" where
  "otp_Create e otp d =
     (case env_fault e DB_Insert_OTP of
        Some m \<Rightarrow> (Inl (Wrapf ''failed to create OTP'' (Driver m)), d)
      | None \<Rightarrow>
          if utf8_chars (otp_PhoneNumber otp) = None \<or> utf8_chars (otp_Code otp) = None \<or>
             utf8_chars (otp_SessionToken otp) = None
          then (Inl (Wrapf ''failed to create OTP'' (Driver invalid_byte_sequence)), d)
          else
            (case varchar 15 (otp_PhoneNumber otp) of
               Inl m \<Rightarrow> (Inl (Wrapf ''failed to create OTP'' (Driver m)), d)
             | Inr phoneNumber \<Rightarrow>
                 (case varchar 10 (otp_Code otp) of
                    Inl m \<Rightarrow> (Inl (Wrapf ''failed to create OTP'' (Driver m)), d)
                  | Inr code \<Rightarrow>
                      (case varchar 255 (otp_SessionToken otp) of
                         Inl m \<Rightarrow> (Inl (Wrapf ''failed to create OTP'' (Driver m)), d)
                       | Inr sessionToken \<Rightarrow>
                           (let row = otp\<lparr>otp_ID := otps_id_seq d, otp_PhoneNumber := phoneNumber,
                                          otp_Code := code, otp_SessionToken := sessionToken,
                                          otp_CreatedAt := env_now e, otp_IsUsed := False,
                                          otp_UsedAt := None\<rparr>
                            in if sessionToken \<in> set (map otp_SessionToken (otps d))
                               then (Inl (Wrapf ''failed to create OTP'' (Driver unique_violation)),
                                     d\<lparr>otps_id_seq := otps_id_seq d + 1\<rparr>)
                               else (Inr row, d\<lparr>otps := otps d @ [row],
                                                otps_id_seq := otps_id_seq d + 1\<rparr>))))))"

text \<open>
  \<open>ORDER BY created_at DESC LIMIT 1\<close>: the row with the greatest \<open>created_at\<close>; among
  rows created at the same instant, which SQL leaves open, the first in table order.
\<close>

fun newest :: "OTP list \<Rightarrow> OTP option" where
  "newest [] = None"
| "newest (r # rs) =
     (case newest rs of
        None \<Rightarrow> Some r
      | Some r' \<Rightarrow> if otp_CreatedAt r < otp_CreatedAt r' then Some r' else Some r)"

definition GetActiveBySessionTokenAndCode ::
    "env \<Rightarrow> string \<Rightarrow> string \<Rightarrow> db \<Rightarrow> error + OTP option" where
  "GetActiveBySessionTokenAndCode e sessionToken code d =
     (case env_fault e DB_Select_OTP of
        Some m \<Rightarrow> Inl (Wrapf ''failed to get OTP by session token'' (Driver m))
      | None \<Rightarrow>
          Inr (newest (filter (\<lambda>r. otp_SessionToken r = sessionToken \<and> otp_Code r = code \<and>
                                   \<not> otp_IsUsed r \<and> env_now e < otp_ExpiresAt r) (otps d))))"

text \<open>
  \<open>MarkAsUsed\<close> is the conditional update
  \<open>UPDATE otps SET is_used = TRUE, used_at = CURRENT_TIMESTAMP WHERE id = $1 AND is_used = FALSE\<close>;
  it reports an error when no row was affected.
\<close>

definition MarkAsUsed :: "env \<Rightarrow> int \<Rightarrow> db \<Rightarrow> (error + unit) \<times> db" where
  "MarkAsUsed e i d =
     (case env_fault e DB_Update_OTP of
        Some m \<Rightarrow> (Inl (Wrapf ''failed to mark OTP as used'' (Driver m)), d)
      | None \<Rightarrow>
          (let hit = (\<lambda>r. otp_ID r = i \<and> \<not> otp_IsUsed r);
               rowsAffected = length (filter hit (otps d));
               d' = d\<lparr>otps := map (\<lambda>r. if hit r
                                         then r\<lparr>otp_IsUsed := True, otp_UsedAt := Some (env_now e)\<rparr>
                                         else r) (otps d)\<rparr>
           in if rowsAffected = 0
              then (Inl (Errorf ''OTP not found or already used''), d')
              else (Inr (), d')))"

definition DeleteExpired :: "env \<Rightarrow> db \<Rightarrow> (error + unit) \<times> db" where
  "DeleteExpired e d =
     (case env_fault e DB_Delete_OTP of
        Some m \<Rightarrow> (Inl (Wrapf ''failed to delete expired OTPs'' (Driver m)), d)
      | None \<Rightarrow> (Inr (), d\<lparr>otps := filter (\<lambda>r. \<not> otp_ExpiresAt r < env_now e) (otps d)\<rparr>))"

definition GetByPhoneNumber :: "env \<Rightarrow> string \<Rightarrow> db \<Rightarrow> error + User option" where
  "GetByPhoneNumber e phoneNumber d =
     (case env_fault e DB_Select_User of
        Some m \<Rightarrow> Inl (Wrapf ''failed to get user by phone number'' (Driver m))
      | None \<Rightarrow>
          Inr (case filter (\<lambda>u. user_PhoneNumber u = phoneNumber \<and> user_IsActive u) (users d) of
                 [] \<Rightarrow> None
               | u # _ \<Rightarrow> Some u))"

definition user_Create :: "env \<Rightarrow> User \<Rightarrow> db \<Rightarrow> (error + User) \<times> db" where
  "user_Create e user d =
     (let row = user\<lparr>user_ID := users_id_seq d, user_RegisteredAt := env_now e,
                     user_LastLoginAt := Some (env_now e), user_IsActive := True\<rparr>
      in case env_fault e DB_Insert_User of
           Some m \<Rightarrow> (Inl (Wrapf ''failed to create user'' (Driver m)), d)
         | None \<Rightarrow>
             if user_PhoneNumber row \<in> set (map user_PhoneNumber (users d))
             then (Inl (Wrapf ''failed to create user'' (Driver unique_violation)),
                   d\<lparr>users_id_seq := users_id_seq d + 1\<rparr>)
             else (Inr row, d\<lparr>users := users d @ [row], users_id_seq := users_id_seq d + 1\<rparr>))"

definition UpdateLastLogin :: "env \<Rightarrow> string \<Rightarrow> db \<Rightarrow> (error + unit) \<times> db" where
  "UpdateLastLogin e phoneNumber d =
     (case env_fault e DB_Update_User of
        Some m \<Rightarrow> (Inl (Wrapf ''failed to update last login'' (Driver m)), d)
      | None \<Rightarrow>
          (let hit = (\<lambda>u. user_PhoneNumber u = phoneNumber \<and> user_IsActive u);
               rowsAffected = length (filter hit (users d));
               d' = d\<lparr>users := map (\<lambda>u. if hit u then u\<lparr>user_LastLoginAt := Some (env_now e)\<rparr>
                                          else u) (users d)\<rparr>
           in if rowsAffected = 0
              then (Inl (Errorf ''user not found or inactive''), d')
              else (Inr (), d')))"

section \<open>OTP verification (service.otpService.VerifyOTP)\<close>

text \<open>
  \<open>VerifyOTP\<close> looks the challenge up and, when one is found, goes on with
  \<open>VerifyOTP_found\<close>: the statements of the source from "Mark OTP as used" on. The two
  parts are separate statements against the database, so another request can act between
  them; the split lets a theorem speak about the second part in a state the first part did
  not see.
\<close>

definition VerifyOTP_found :: "env \<Rightarrow> OTP \<Rightarrow> db \<Rightarrow> (error + User) \<times> db" where
  "VerifyOTP_found e otp d =
     (case MarkAsUsed e (otp_ID otp) d of
        (Inl err, d1) \<Rightarrow> (Inl (Wrapf ''failed to mark OTP as used'' err), d1)
      | (Inr _, d1) \<Rightarrow>
          (let phoneNumber = otp_PhoneNumber otp in
           case GetByPhoneNumber e phoneNumber d1 of
             Inl err \<Rightarrow> (Inl (Wrapf ''failed to get user'' err), d1)
           | Inr None \<Rightarrow>
               (case user_Create e
                       \<lparr>user_ID = 0, user_PhoneNumber = phoneNumber, user_RegisteredAt = 0,
                        user_LastLoginAt = None, user_IsActive = False\<rparr> d1 of
                  (Inl err, d2) \<Rightarrow> (Inl (Wrapf ''failed to create user'' err), d2)
                | (Inr user, d2) \<Rightarrow> (Inr user, d2))
           | Inr (Some user) \<Rightarrow>
               (case UpdateLastLogin e phoneNumber d1 of
                  (Inl err, d2) \<Rightarrow> (Inl (Wrapf ''failed to update last login'' err), d2)
                | (Inr _, d2) \<Rightarrow> (Inr user, d2))))"

definition VerifyOTP :: "env \<Rightarrow> string \<Rightarrow> string \<Rightarrow> db \<Rightarrow> (error + User) \<times> db" where
  "VerifyOTP e sessionToken code d =
     (case GetActiveBySessionTokenAndCode e sessionToken code d of
        Inl err \<Rightarrow> (Inl (Wrapf ''failed to verify OTP'' err), d)
      | Inr None \<Rightarrow> (Inl (Errorf ''invalid or expired OTP''), d)
      | Inr (Some otp) \<Rightarrow> VerifyOTP_found e otp d)"

section \<open>Key-value store with expiring keys (Redis)\<close>

text \<open>
  The rate-limit records, the session records and the per-user token sets live under the key
  prefixes \<open>rate_limit:\<close>, \<open>token:\<close> and \<open>user_tokens:\<close>; the prefixes keep them
  apart, so each family is a map of its own, keyed by what follows the prefix. The JSON
  encoding of a record is the record. The server keeps time in milliseconds (\<open>mstime\<close>): a
  stored value carries the millisecond after which it is expired, if any, and an expired key
  reads as absent. The client sends an expiration as a whole number: \<open>SET\<close> with a
  positive expiration sends \<open>EX\<close> and seconds when the duration is a whole number of
  seconds of at least one, and \<open>PX\<close> and milliseconds, truncated, otherwise; with
  go-redis's \<open>KeepTTL\<close> (\<open>-1\<close>) it keeps the current expiry, and otherwise it stores
  the key without one. \<open>EXPIRE\<close> sends seconds, truncated, and the server deletes the key
  when that is not in the future. \<open>TTL\<close> answers \<open>-2\<close> for an absent key, \<open>-1\<close> for a
  key without expiry, and otherwise the remaining milliseconds rounded to seconds.
  \<open>goroutines\<close> are the pending \<open>updateTokenLastUsed\<close> goroutines of the token service.
\<close>

record RateLimitInfo =
  rl_PhoneNumber :: string
  rl_RequestCount :: int
  rl_LastRequestAt :: time
  rl_WindowStartAt :: time

record TokenInfo =
  ti_UserID :: int
  ti_TokenHash :: string
  ti_IssuedAt :: time
  ti_ExpiresAt :: time
  ti_LastUsed :: time

datatype refresh = ReadTTL string TokenInfo | WriteBack string TokenInfo duration

type_synonym ('k, 'v) keys = "'k \<Rightarrow> ('v \<times> int option) option"

record redis =
  rate_limit :: "(string, RateLimitInfo) keys"
  token :: "(string, TokenInfo) keys"
  user_tokens :: "(int, string set) keys"
  goroutines :: "refresh list"

definition mstime :: "time \<Rightarrow> int" where
  "mstime t = t div Millisecond"

definition usePrecise :: "duration \<Rightarrow> bool" where
  "usePrecise dur = (dur < Second \<or> dur mod Second \<noteq> 0)"

definition formatMs :: "duration \<Rightarrow> int" where
  "formatMs dur = (if 0 < dur \<and> dur < Millisecond then 1 else quo dur Millisecond)"

definition formatSec :: "duration \<Rightarrow> int" where
  "formatSec dur = (if 0 < dur \<and> dur < Second then 1 else quo dur Second)"

definition redis_GET :: "('k, 'v) keys \<Rightarrow> time \<Rightarrow> 'k \<Rightarrow> 'v option" where
  "redis_GET m t k =
     (case m k of
        None \<Rightarrow> None
      | Some (v, None) \<Rightarrow> Some v
      | Some (v, Some x) \<Rightarrow> if mstime t \<le> x then Some v else None)"

definition redis_expiry :: "('k, 'v) keys \<Rightarrow> time \<Rightarrow> 'k \<Rightarrow> int option" where
  "redis_expiry m t k =
     (case m k of
        None \<Rightarrow> None
      | Some (v, None) \<Rightarrow> None
      | Some (v, Some x) \<Rightarrow> if mstime t \<le> x then Some x else None)"

definition redis_SET :: "('k, 'v) keys \<Rightarrow> time \<Rightarrow> 'k \<Rightarrow> 'v \<Rightarrow> duration \<Rightarrow> ('k, 'v) keys" where
  "redis_SET m t k v expiration =
     m(k \<mapsto> (v, if 0 < expiration
                 then (if usePrecise expiration then Some (mstime t + formatMs expiration)
                       else Some (mstime t + formatSec expiration * 1000))
                 else if expiration = - 1 then redis_expiry m t k
                 else None))"

definition redis_TTL :: "('k, 'v) keys \<Rightarrow> time \<Rightarrow> 'k \<Rightarrow> duration" where
  "redis_TTL m t k =
     (case m k of
        None \<Rightarrow> - 2
      | Some (v, None) \<Rightarrow> - 1
      | Some (v, Some x) \<Rightarrow>
          if mstime t \<le> x then ((x - mstime t + 500) div 1000) * Second else - 2)"

definition redis_DEL :: "('k, 'v) keys \<Rightarrow> 'k \<Rightarrow> ('k, 'v) keys" where
  "redis_DEL m k = m(k := None)"

definition redis_SADD :: "('k, 'a set) keys \<Rightarrow> time \<Rightarrow> 'k \<Rightarrow> 'a \<Rightarrow> ('k, 'a set) keys" where
  "redis_SADD m t k x =
     (case redis_GET m t k of
        None \<Rightarrow> m(k \<mapsto> ({x}, None))
      | Some s \<Rightarrow> m(k \<mapsto> (insert x s, redis_expiry m t k)))"

definition redis_SREM :: "('k, 'a set) keys \<Rightarrow> time \<Rightarrow> 'k \<Rightarrow> 'a \<Rightarrow> ('k, 'a set) keys" where
  "redis_SREM m t k x =
     (case redis_GET m t k of
        None \<Rightarrow> m
      | Some s \<Rightarrow> if s - {x} = {} then m(k := None) else m(k \<mapsto> (s - {x}, redis_expiry m t k)))"

definition redis_EXPIRE :: "('k, 'v) keys \<Rightarrow> time \<Rightarrow> 'k \<Rightarrow> duration \<Rightarrow> ('k, 'v) keys" where
  "redis_EXPIRE m t k expiration =
     (case redis_GET m t k of
        None \<Rightarrow> m
      | Some v \<Rightarrow>
          if 0 < formatSec expiration
          then m(k \<mapsto> (v, Some (mstime t + formatSec expiration * 1000)))
          else m(k := None))"

section \<open>Rate limiter (repository.RedisRateLimitRepository, service.otpService)\<close>

text \<open>
  \<open>GetRateLimit\<close> returns a pointer, which the service tests for nil; the Redis
  repository answers a missing key with a fresh record (count 0, zero times), never with nil.
  \<open>UpdateRateLimit\<close> stores the record with the time left in the window as expiry, at
  least one minute, and starts a new window when none is left. \<open>CleanupRateLimits\<close> arms
  the window duration as expiry on every rate-limit key that has none. The error of a
  rate-limited send carries the two configuration values its message prints.
\<close>

datatype send_error = RateLimitExceeded int duration | SendFailed error

definition GetRateLimit ::
    "string option \<Rightarrow> time \<Rightarrow> string \<Rightarrow> redis \<Rightarrow> error + RateLimitInfo option" where
  "GetRateLimit fault t phoneNumber r =
     (case fault of
        Some m \<Rightarrow> Inl (Wrapf ''failed to get rate limit info'' (Driver m))
      | None \<Rightarrow>
          (case redis_GET (rate_limit r) t phoneNumber of
             None \<Rightarrow> Inr (Some \<lparr>rl_PhoneNumber = phoneNumber, rl_RequestCount = 0,
                               rl_LastRequestAt = 0, rl_WindowStartAt = 0\<rparr>)
           | Some info \<Rightarrow> Inr (Some info)))"

definition UpdateRateLimit ::
    "Config \<Rightarrow> env \<Rightarrow> RateLimitInfo \<Rightarrow> redis \<Rightarrow> (error + unit) \<times> redis" where
  "UpdateRateLimit cfg e rateLimitInfo r =
     (let now = env_now e;
          windowDuration = RateLimit_WindowDuration cfg;
          info1 = (if IsZero (rl_WindowStartAt rateLimitInfo)
                   then rateLimitInfo\<lparr>rl_WindowStartAt := now\<rparr> else rateLimitInfo);
          windowEnd = time_Add (rl_WindowStartAt info1) windowDuration;
          ttl = time_Sub windowEnd now;
          (info2, ttl2) =
             (if ttl \<le> 0 then (info1\<lparr>rl_WindowStartAt := now, rl_RequestCount := 1\<rparr>, windowDuration)
              else if ttl < Minute then (info1, Minute)
              else (info1, ttl))
      in case env_fault e RL_Set of
           Some m \<Rightarrow> (Inl (Wrapf ''failed to update rate limit info'' (Driver m)), r)
         | None \<Rightarrow>
             (Inr (), r\<lparr>rate_limit := redis_SET (rate_limit r) now (rl_PhoneNumber info2) info2 ttl2\<rparr>))"

definition IsRateLimited :: "Config \<Rightarrow> env \<Rightarrow> string \<Rightarrow> redis \<Rightarrow> error + bool" where
  "IsRateLimited cfg e phoneNumber r =
     (case GetRateLimit (env_fault e RL_Get_Check) (env_now e) phoneNumber r of
        Inl err \<Rightarrow> Inl (Wrapf ''failed to get rate limit info'' err)
      | Inr None \<Rightarrow> Inr False
      | Inr (Some rateLimitInfo) \<Rightarrow>
          if RateLimit_WindowDuration cfg \<le> time_Sub (env_now e) (rl_WindowStartAt rateLimitInfo)
          then Inr False
          else Inr (RateLimit_MaxRequests cfg \<le> rl_RequestCount rateLimitInfo))"

definition updateRateLimit :: "Config \<Rightarrow> env \<Rightarrow> string \<Rightarrow> redis \<Rightarrow> (error + unit) \<times> redis" where
  "updateRateLimit cfg e phoneNumber r =
     (case GetRateLimit (env_fault e RL_Get_Update) (env_now e) phoneNumber r of
        Inl err \<Rightarrow> (Inl (Wrapf ''failed to get rate limit info'' err), r)
      | Inr None \<Rightarrow>
          UpdateRateLimit cfg e
            \<lparr>rl_PhoneNumber = phoneNumber, rl_RequestCount = 1,
             rl_LastRequestAt = env_now e, rl_WindowStartAt = env_now e\<rparr> r
      | Inr (Some rateLimitInfo) \<Rightarrow>
          (let now = env_now e;
               info1 = (if RateLimit_WindowDuration cfg \<le> time_Sub now (rl_WindowStartAt rateLimitInfo)
                        then rateLimitInfo\<lparr>rl_RequestCount := 1, rl_WindowStartAt := now\<rparr>
                        else rateLimitInfo\<lparr>rl_RequestCount := rl_RequestCount rateLimitInfo + 1\<rparr>)
           in UpdateRateLimit cfg e (info1\<lparr>rl_LastRequestAt := now\<rparr>) r))"

definition CleanupRateLimits :: "Config \<Rightarrow> env \<Rightarrow> redis \<Rightarrow> (error + unit) \<times> redis" where
  "CleanupRateLimits cfg e r =
     (case env_fault e Redis_Keys of
        Some m \<Rightarrow> (Inl (Wrapf ''failed to get rate limit keys'' (Driver m)), r)
      | None \<Rightarrow>
          (Inr (), r\<lparr>rate_limit := (\<lambda>key.
                      if redis_TTL (rate_limit r) (env_now e) key = - 1
                      then redis_EXPIRE (rate_limit r) (env_now e) key (RateLimit_WindowDuration cfg) key
                      else rate_limit r key)\<rparr>))"

section \<open>Code and session token generation (service.otpService)\<close>

text \<open>
  \<open>generateOTPCode\<close> draws \<open>rand.Int(rand.Reader, 10^Length)\<close> and prints it with the
  format \<open>Sprintf("%%0%dd", Length)\<close>, that is \<^verbatim>\<open>%0<Length>d\<close>. The loop that
  computes the bound does not run for a length below 1, so the bound is then 1 and the number
  drawn is 0. The number drawn is \<open>env_rand_int\<close> reduced into the range. \<open>Sprintf_pad\<close>
  is what \<open>fmt\<close> and \<open>big.Int.Format\<close> do with that format: a positive length pads with
  zeros on the left to that width; length 0 gives \<^verbatim>\<open>%00d\<close>, two zero flags and no
  width; a negative length gives \<^verbatim>\<open>%0-<n>d\<close>, the minus flag, which pads with spaces
  on the right. \<open>parsenum\<close> is \<open>fmt\<close>'s width parser, which gives up on a number past
  \<open>10^6\<close>; the verb is then lost and \<open>fmt\<close> prints its \<open>NOVERB\<close> and \<open>EXTRA\<close>
  markers. \<open>generateSessionToken\<close> prints 32 random bytes in hexadecimal;
  \<open>rand.Read\<close> fills the whole buffer or fails, with the reader's error or, when the
  source runs dry, with \<open>EOF\<close> or \<open>unexpected EOF\<close>.
\<close>

definition tooLarge :: "nat \<Rightarrow> bool" where
  "tooLarge x = (1000000 < x)"

fun parsenum :: "string \<Rightarrow> nat \<Rightarrow> nat option" where
  "parsenum [] num = Some num"
| "parsenum (c # cs) num =
     (if tooLarge num then None else parsenum cs (num * 10 + (of_char c - 48)))"

definition Sprintf_pad :: "int \<Rightarrow> nat \<Rightarrow> string" where
  "Sprintf_pad n x =
     (let digits = itoa x in
      if n = 0 then digits
      else case parsenum (itoa (nat \<bar>n\<bar>)) 0 of
             None \<Rightarrow> ''%!(NOVERB)%!(EXTRA *big.Int='' @ digits @ '')''
           | Some width \<Rightarrow>
               if 0 < n then replicate (width - length digits) CHR ''0'' @ digits
               else digits @ replicate (width - length digits) CHR '' '')"

definition generateOTPCode :: "Config \<Rightarrow> env \<Rightarrow> error + string" where
  "generateOTPCode cfg e =
     (let maxValue = (10::nat) ^ nat (OTP_Length cfg) in
      case env_fault e Rand_Int of
        Some m \<Rightarrow> Inl (Wrapf ''failed to generate random number'' (Driver m))
      | None \<Rightarrow> Inr (Sprintf_pad (OTP_Length cfg) (env_rand_int e mod maxValue)))"

definition hex :: "string \<Rightarrow> string" where
  "hex bytes = concat (map (\<lambda>b. [digit_char (of_char b div 16), digit_char (of_char b mod 16)]) bytes)"

definition generateSessionToken :: "env \<Rightarrow> error + string" where
  "generateSessionToken e =
     (case env_fault e Rand_Read of
        Some m \<Rightarrow> Inl (Wrapf ''failed to generate session token'' (Driver m))
      | None \<Rightarrow>
          if env_rand_bytes e = [] then Inl (Wrapf ''failed to generate session token'' (Driver ''EOF''))
          else if length (env_rand_bytes e) < 32
          then Inl (Wrapf ''failed to generate session token'' (Driver ''unexpected EOF''))
          else Inr (hex (take 32 (env_rand_bytes e))))"

section \<open>OTP issuance (service.otpService.SendOTP)\<close>

record OTPResponse =
  resp_Message :: string
  resp_Token :: string
  resp_PhoneNumber :: string
  resp_ExpiresAt :: time

fun SendOTP ::
    "Config \<Rightarrow> env \<Rightarrow> string \<Rightarrow> db \<times> redis \<Rightarrow> (send_error + OTPResponse) \<times> db \<times> redis" where
  "SendOTP cfg e phoneNumber (d, r) =
     (case IsRateLimited cfg e phoneNumber r of
        Inl err \<Rightarrow> (Inl (SendFailed (Wrapf ''failed to check rate limit'' err)), d, r)
      | Inr True \<Rightarrow>
          (Inl (RateLimitExceeded (RateLimit_MaxRequests cfg) (RateLimit_WindowDuration cfg)), d, r)
      | Inr False \<Rightarrow>
          (case generateOTPCode cfg e of
             Inl err \<Rightarrow> (Inl (SendFailed (Wrapf ''failed to generate OTP code'' err)), d, r)
           | Inr code \<Rightarrow>
               (case generateSessionToken e of
                  Inl err \<Rightarrow> (Inl (SendFailed (Wrapf ''failed to generate session token'' err)), d, r)
                | Inr sessionToken \<Rightarrow>
                    (case otp_Create e
                            \<lparr>otp_ID = 0, otp_PhoneNumber = phoneNumber, otp_Code = code,
                             otp_SessionToken = sessionToken,
                             otp_ExpiresAt = time_Add (env_now e) (OTP_ExpirationTime cfg),
                             otp_IsUsed = False, otp_CreatedAt = 0, otp_UsedAt = None\<rparr> d of
                       (Inl err, d1) \<Rightarrow> (Inl (SendFailed (Wrapf ''failed to create OTP'' err)), d1, r)
                     | (Inr createdOTP, d1) \<Rightarrow>
                         (let r1 = snd (updateRateLimit cfg e phoneNumber r)
                          in (Inr \<lparr>resp_Message = ''OTP sent successfully'',
                                   resp_Token = sessionToken,
                                   resp_PhoneNumber = phoneNumber,
                                   resp_ExpiresAt = otp_ExpiresAt createdOTP\<rparr>, d1, r1))))))"

fun CleanupExpiredOTPs ::
    "Config \<Rightarrow> env \<Rightarrow> db \<times> redis \<Rightarrow> (error + unit) \<times> db \<times> redis" where
  "CleanupExpiredOTPs cfg e (d, r) =
     (case DeleteExpired e d of
        (Inl err, d1) \<Rightarrow> (Inl (Wrapf ''failed to delete expired OTPs'' err), d1, r)
      | (Inr u, d1) \<Rightarrow>
          (case CleanupRateLimits cfg e r of
             (Inl err, r1) \<Rightarrow> (Inl (Wrapf ''failed to cleanup rate limits'' err), d1, r1)
           | (Inr u, r1) \<Rightarrow> (Inr (), d1, r1)))"

section \<open>Session store (service/token_service.go)\<close>

text \<open>
  \<open>ValidateToken\<close> of the token service starts the goroutine \<open>updateTokenLastUsed\<close> and
  returns without waiting for it. The goroutine issues two commands, \<open>TTL\<close> and then, if
  the answer is positive, \<open>SET\<close> with that expiration: \<open>ReadTTL\<close> is a goroutine that
  has issued neither, \<open>WriteBack\<close> one that has read the TTL and not yet written.
  \<open>schedule t i\<close> lets goroutine \<open>i\<close> issue its next command at instant \<open>t\<close>; what
  happens between two such steps is up to the requests being served. A goroutine reads and
  writes one \<open>token:\<close> key and nothing else, so it matters to a request only where the
  request issues two commands on such a key with a goroutine pending in between: that is
  \<open>RevokeToken\<close>, whose \<open>ValidateToken\<close> starts a goroutine before the \<open>DEL\<close>. The
  steps that the scheduler runs there are those of \<open>env_sched\<close>.
\<close>

definition StoreToken ::
    "env \<Rightarrow> string \<Rightarrow> TokenInfo \<Rightarrow> duration \<Rightarrow> redis \<Rightarrow> (error + unit) \<times> redis" where
  "StoreToken e tokenHash tokenInfo expiration r =
     (case env_fault e Redis_Set_Token of
        Some m \<Rightarrow> (Inl (Wrapf ''failed to store token in Redis'' (Driver m)), r)
      | None \<Rightarrow>
          (let now = env_now e;
               r1 = r\<lparr>token := redis_SET (token r) now tokenHash tokenInfo expiration\<rparr>;
               r2 = (case env_fault e Redis_SAdd_Token of
                       Some m \<Rightarrow> r1
                     | None \<Rightarrow> r1\<lparr>user_tokens :=
                                  redis_SADD (user_tokens r1) now (ti_UserID tokenInfo) tokenHash\<rparr>);
               r3 = r2\<lparr>user_tokens :=
                         redis_EXPIRE (user_tokens r2) now (ti_UserID tokenInfo) (expiration + Hour)\<rparr>
           in (Inr (), r3)))"

definition updateTokenLastUsed :: "string \<Rightarrow> TokenInfo \<Rightarrow> redis \<Rightarrow> redis" where
  "updateTokenLastUsed tokenHash tokenInfo r =
     r\<lparr>goroutines := goroutines r @ [ReadTTL tokenHash tokenInfo]\<rparr>"

definition refresh_step :: "time \<Rightarrow> refresh \<Rightarrow> redis \<Rightarrow> refresh option \<times> redis" where
  "refresh_step t g r =
     (case g of
        ReadTTL key data \<Rightarrow>
          (let ttl = redis_TTL (token r) t key
           in if 0 < ttl then (Some (WriteBack key data ttl), r) else (None, r))
      | WriteBack key data ttl \<Rightarrow>
          (None, r\<lparr>token := redis_SET (token r) t key data ttl\<rparr>))"

definition schedule :: "time \<Rightarrow> nat \<Rightarrow> redis \<Rightarrow> redis" where
  "schedule t i r =
     (if i < length (goroutines r)
      then (case refresh_step t (goroutines r ! i) r of
              (None, r1) \<Rightarrow>
                r1\<lparr>goroutines := take i (goroutines r) @ drop (Suc i) (goroutines r)\<rparr>
            | (Some g, r1) \<Rightarrow> r1\<lparr>goroutines := (goroutines r)[i := g]\<rparr>)
      else r)"

fun run_schedule :: "(time \<times> nat) list \<Rightarrow> redis \<Rightarrow> redis" where
  "run_schedule [] r = r"
| "run_schedule ((t, i) # steps) r = run_schedule steps (schedule t i r)"

definition token_ValidateToken :: "env \<Rightarrow> string \<Rightarrow> redis \<Rightarrow> (error + TokenInfo) \<times> redis" where
  "token_ValidateToken e tokenHash r =
     (case env_fault e Redis_Get_Token of
        Some m \<Rightarrow> (Inl (Wrapf ''failed to get token from Redis'' (Driver m)), r)
      | None \<Rightarrow>
          (case redis_GET (token r) (env_now e) tokenHash of
             None \<Rightarrow> (Inl (Errorf ''token not found or expired''), r)
           | Some data \<Rightarrow>
               (let tokenInfo = data\<lparr>ti_LastUsed := env_now e\<rparr>
                in (Inr tokenInfo, updateTokenLastUsed tokenHash tokenInfo r))))"

definition token_RevokeToken :: "env \<Rightarrow> string \<Rightarrow> redis \<Rightarrow> (error + unit) \<times> redis" where
  "token_RevokeToken e tokenHash r =
     (let r1 = (case token_ValidateToken e tokenHash r of
                  (Inl err, r') \<Rightarrow> r'
                | (Inr tokenInfo, r') \<Rightarrow>
                    r'\<lparr>user_tokens :=
                         redis_SREM (user_tokens r') (env_now e) (ti_UserID tokenInfo) tokenHash\<rparr>);
          r2 = run_schedule (map (Pair (env_now e)) (env_sched e)) r1
      in case env_fault e Redis_Del_Token of
           Some m \<Rightarrow> (Inl (Wrapf ''failed to revoke token'' (Driver m)), r2)
         | None \<Rightarrow> (Inr (), r2\<lparr>token := redis_DEL (token r2) tokenHash\<rparr>))"

section \<open>Bearer tokens (service/jwt_service.go)\<close>

text \<open>
  The JWT library is a parameter: \<open>SignedString\<close> signs claims with the secret,
  \<open>ParseWithClaims\<close> checks signature, expiry and not-before of a token string at an
  instant and returns its claims, \<open>sha256_hex\<close> is the hash behind \<open>hashToken\<close>. The field
  \<open>svc_tokenService\<close> says whether the service was built with a token service
  (\<open>main\<close> always passes one).
\<close>

record JWTClaims =
  claim_UserID :: int
  claim_PhoneNumber :: string
  claim_ExpiresAt :: time
  claim_IssuedAt :: time
  claim_NotBefore :: time
  claim_Issuer :: string
  claim_Subject :: string

record jwt_library =
  SignedString :: "string \<Rightarrow> JWTClaims \<Rightarrow> string + string"
  ParseWithClaims :: "string \<Rightarrow> time \<Rightarrow> string \<Rightarrow> string + JWTClaims"
  sha256_hex :: "string \<Rightarrow> string"

record jwtService =
  svc_cfg :: Config
  svc_jwt :: jwt_library
  svc_tokenService :: bool

record AuthResponse =
  auth_Token :: string
  auth_User :: User
  auth_ExpiresAt :: time
  auth_Message :: string

definition NewNumericDate :: "time \<Rightarrow> time" where
  "NewNumericDate t = t - t mod Second"

definition Itoa :: "int \<Rightarrow> string" where
  "Itoa i = (if i < 0 then CHR ''-'' # itoa (nat (- i)) else itoa (nat i))"

definition hashToken :: "jwtService \<Rightarrow> string \<Rightarrow> string" where
  "hashToken s tok = sha256_hex (svc_jwt s) tok"

definition token_claims :: "jwtService \<Rightarrow> env \<Rightarrow> User \<Rightarrow> JWTClaims" where
  "token_claims s e user =
     \<lparr>claim_UserID = user_ID user, claim_PhoneNumber = user_PhoneNumber user,
      claim_ExpiresAt = NewNumericDate (time_Add (env_now e) (JWT_ExpirationTime (svc_cfg s))),
      claim_IssuedAt = NewNumericDate (env_now e),
      claim_NotBefore = NewNumericDate (env_now e), claim_Issuer = ''otp-auth-service'',
      claim_Subject = ''user:'' @ Itoa (user_ID user)\<rparr>"

definition GenerateToken ::
    "jwtService \<Rightarrow> env \<Rightarrow> User \<Rightarrow> redis \<Rightarrow> (error + AuthResponse) \<times> redis" where
  "GenerateToken s e user r =
     (let now = env_now e;
          expiresAt = time_Add now (JWT_ExpirationTime (svc_cfg s))
      in case SignedString (svc_jwt s) (JWT_Secret (svc_cfg s)) (token_claims s e user) of
           Inl m \<Rightarrow> (Inl (Wrapf ''failed to generate token'' (Driver m)), r)
         | Inr tokenString \<Rightarrow>
             (let r1 = (if svc_tokenService s
                        then snd (StoreToken e (hashToken s tokenString)
                                    \<lparr>ti_UserID = user_ID user, ti_TokenHash = hashToken s tokenString,
                                     ti_IssuedAt = now, ti_ExpiresAt = expiresAt, ti_LastUsed = now\<rparr>
                                    (JWT_ExpirationTime (svc_cfg s)) r)
                        else r)
              in (Inr \<lparr>auth_Token = tokenString, auth_User = user, auth_ExpiresAt = expiresAt,
                       auth_Message = ''Authentication successful''\<rparr>, r1)))"

definition ValidateToken ::
    "jwtService \<Rightarrow> env \<Rightarrow> string \<Rightarrow> redis \<Rightarrow> (error + JWTClaims) \<times> redis" where
  "ValidateToken s e tokenString r =
     (case ParseWithClaims (svc_jwt s) (JWT_Secret (svc_cfg s)) (env_now e) tokenString of
        Inl m \<Rightarrow> (Inl (Wrapf ''invalid token'' (Driver m)), r)
      | Inr claims \<Rightarrow>
          if svc_tokenService s
          then (case token_ValidateToken e (hashToken s tokenString) r of
                  (Inl err, r1) \<Rightarrow> (Inl (Errorf ''token session expired''), r1)
                | (Inr info, r1) \<Rightarrow> (Inr claims, r1))
          else (Inr claims, r))"

definition RevokeToken :: "jwtService \<Rightarrow> env \<Rightarrow> string \<Rightarrow> redis \<Rightarrow> (error + unit) \<times> redis" where
  "RevokeToken s e tokenString r =
     (if \<not> svc_tokenService s then (Inl (Errorf ''token service not available''), r)
      else token_RevokeToken e (hashToken s tokenString) r)"

section \<open>Verification endpoint (controller.OTPController.VerifyOTP)\<close>

text \<open>
  \<open>ValidateStruct\<close> applies the tags of \<open>VerifyOTPRequest\<close>: \<open>required\<close> on the token,
  \<open>required,len=6\<close> on the code, the first failing tag of each field reported in field
  order. The \<open>len\<close> tag counts runes: \<open>RuneCountInString\<close> is the UTF-8 decoder's
  count, in which a byte that starts no valid sequence is a rune of its own. The controller
  takes the bound request (or the binding error), validates, calls the service and turns its
  result into a JSON response; \<open>VerifyOTP_respond\<close> is the part after the service call.
\<close>

record VerifyOTPRequest =
  req_Token :: string
  req_Code :: string

fun Join :: "string list \<Rightarrow> string \<Rightarrow> string" where
  "Join [] sep = []"
| "Join [x] sep = x"
| "Join (x # y # ys) sep = x @ sep @ Join (y # ys) sep"

definition ValidateStruct :: "VerifyOTPRequest \<Rightarrow> error option" where
  "ValidateStruct req =
     (let errors =
            (if req_Token req = [] then [''token is required''] else []) @
            (if req_Code req = [] then [''code is required'']
             else if RuneCountInString (req_Code req) \<noteq> 6
             then [''code must be exactly 6 characters long'']
             else [])
      in if errors = [] then None
         else Some (Errorf (''validation failed: '' @ Join errors ''; '')))"

datatype body = ErrorBody string string | AuthBody AuthResponse

datatype response = JSON nat body

fun status :: "response \<Rightarrow> nat" where
  "status (JSON code b) = code"

definition VerifyOTP_respond ::
    "jwtService \<Rightarrow> env \<Rightarrow> error + User \<Rightarrow> redis \<Rightarrow> response \<times> redis" where
  "VerifyOTP_respond js e res r =
     (case res of
        Inl err \<Rightarrow>
          if Error err = ''invalid or expired OTP''
          then (JSON 401 (ErrorBody ''Invalid or expired OTP'' ''Please request a new OTP''), r)
          else (JSON 500 (ErrorBody ''Failed to verify OTP'' ''Internal server error''), r)
      | Inr user \<Rightarrow>
          (case GenerateToken js e user r of
             (Inl err, r1) \<Rightarrow>
               (JSON 500 (ErrorBody ''Failed to generate authentication token''
                                    ''Internal server error''), r1)
           | (Inr authResponse, r1) \<Rightarrow> (JSON 200 (AuthBody authResponse), r1)))"

fun OTPController_VerifyOTP ::
    "jwtService \<Rightarrow> env \<Rightarrow> string + VerifyOTPRequest \<Rightarrow> db \<times> redis \<Rightarrow> response \<times> db \<times> redis" where
  "OTPController_VerifyOTP js e bound (d, r) =
     (case bound of
        Inl m \<Rightarrow> (JSON 400 (ErrorBody ''Invalid request format'' m), d, r)
      | Inr req \<Rightarrow>
          (case ValidateStruct req of
             Some err \<Rightarrow> (JSON 400 (ErrorBody ''Validation failed'' (Error err)), d, r)
           | None \<Rightarrow>
               (case VerifyOTP e (req_Token req) (req_Code req) d of
                  (res, d1) \<Rightarrow>
                    (case VerifyOTP_respond js e res r of
                       (resp, r1) \<Rightarrow> (resp, d1, r1)))))"

section \<open>Request sequences and store invariants\<close>

text \<open>
  The requests the OTP service handles, each with its environment, and the state they leave.
  \<open>tokens_unique\<close> is the \<open>UNIQUE\<close> constraint on \<open>session_token\<close>;
  \<open>consumed tok\<close> says that no unused challenge carries the handle \<open>tok\<close>.
\<close>

datatype request =
    ReqSend string env
  | ReqVerify string string env
  | ReqCleanup env

fun handle :: "Config \<Rightarrow> request \<Rightarrow> db \<times> redis \<Rightarrow> db \<times> redis" where
  "handle cfg (ReqSend phoneNumber e) s = snd (SendOTP cfg e phoneNumber s)"
| "handle cfg (ReqVerify sessionToken code e) (d, r) = (snd (VerifyOTP e sessionToken code d), r)"
| "handle cfg (ReqCleanup e) s = snd (CleanupExpiredOTPs cfg e s)"

fun run_requests :: "Config \<Rightarrow> request list \<Rightarrow> db \<times> redis \<Rightarrow> db \<times> redis" where
  "run_requests cfg [] s = s"
| "run_requests cfg (q # qs) s = run_requests cfg qs (handle cfg q s)"

fun issued_token :: "request \<Rightarrow> string option" where
  "issued_token (ReqSend phoneNumber e) = Some (hex (take 32 (env_rand_bytes e)))"
| "issued_token (ReqVerify sessionToken code e) = None"
| "issued_token (ReqCleanup e) = None"

definition tokens_unique :: "db \<Rightarrow> bool" where
  "tokens_unique d = distinct (map otp_SessionToken (otps d))"

definition consumed :: "string \<Rightarrow> db \<Rightarrow> bool" where
  "consumed tok d = (\<forall>r \<in> set (otps d). otp_SessionToken r = tok \<longrightarrow> otp_IsUsed r)"

section \<open>Sequences of sends and the stored rate-limit window\<close>

text \<open>
  \<open>no_faults\<close>: no call of the request fails, and the random source delivers its 32
  bytes. \<open>window_open cfg t0 p k r\<close>: the store holds a record for \<open>p\<close> with count
  \<open>k\<close> and window start \<open>t0\<close> that does not expire before the last millisecond of the
  window. \<open>window_over\<close>: at instant \<open>t\<close> the store holds no record for \<open>p\<close>, or one
  whose window has elapsed.
\<close>

definition no_faults :: "env \<Rightarrow> bool" where
  "no_faults e = ((\<forall>c. env_fault e c = None) \<and> 32 \<le> length (env_rand_bytes e))"

definition issued :: "env \<Rightarrow> string" where
  "issued e = hex (take 32 (env_rand_bytes e))"

fun send_all ::
    "Config \<Rightarrow> string \<Rightarrow> env list \<Rightarrow> db \<times> redis \<Rightarrow> (send_error + OTPResponse) list \<times> db \<times> redis" where
  "send_all cfg p [] s = ([], s)"
| "send_all cfg p (e # es) s =
     (case SendOTP cfg e p s of
        (res, s1) \<Rightarrow> (case send_all cfg p es s1 of (rs, s2) \<Rightarrow> (res # rs, s2)))"

definition stored :: "redis \<Rightarrow> time \<Rightarrow> string \<Rightarrow> RateLimitInfo option" where
  "stored r t p = redis_GET (rate_limit r) t p"

definition window_over :: "Config \<Rightarrow> time \<Rightarrow> string \<Rightarrow> redis \<Rightarrow> bool" where
  "window_over cfg t p r =
     (case stored r t p of
        None \<Rightarrow> True
      | Some info \<Rightarrow>
          rl_PhoneNumber info = p \<and>
          RateLimit_WindowDuration cfg \<le> time_Sub t (rl_WindowStartAt info))"

definition window_open :: "Config \<Rightarrow> time \<Rightarrow> string \<Rightarrow> int \<Rightarrow> redis \<Rightarrow> bool" where
  "window_open cfg t0 p k r =
     (case rate_limit r p of
        Some (info, Some x) \<Rightarrow>
          rl_PhoneNumber info = p \<and> rl_RequestCount info = k \<and> rl_WindowStartAt info = t0 \<and>
          mstime (t0 + RateLimit_WindowDuration cfg) - 1 \<le> x
      | _ \<Rightarrow> False)"

section \<open>Scheduling of the refresh goroutines\<close>

text \<open>
  \<open>no_pending_write key\<close>: no goroutine has read the TTL of \<open>key\<close> and not yet written.
\<close>

definition no_pending_write :: "string \<Rightarrow> redis \<Rightarrow> bool" where
  "no_pending_write key r =
     (\<forall>g \<in> set (goroutines r). case g of WriteBack k data ttl \<Rightarrow> k \<noteq> key | ReadTTL k data \<Rightarrow> True)"

section \<open>Concrete configurations and stores\<close>

text \<open>
  The default configuration, a clock that reads \<open>k\<close> seconds after an instant in 2023, an
  environment without faults whose random bytes spell \<open>k\<close> (\<open>ex_token\<close> is the handle
  issued at instant 0), empty stores, and a stand-in for the JWT library that signs
  user 7's token as \<open>jwt:user:7\<close> and accepts that string until it expires.
\<close>

definition ex_cfg :: Config where
  "ex_cfg = \<lparr>OTP_Length = 6, OTP_ExpirationTime = 2 * Minute, RateLimit_MaxRequests = 3,
             RateLimit_WindowDuration = 10 * Minute, JWT_Secret = ''secret'',
             JWT_ExpirationTime = 24 * Hour\<rparr>"

definition ex_t :: "int \<Rightarrow> time" where
  "ex_t k = unix_epoch + 1700000000 * Second + k * Second"

definition ex_env :: "int \<Rightarrow> env" where
  "ex_env k = \<lparr>env_now = ex_t k, env_fault = (\<lambda>c. None), env_rand_int = 123456,
               env_rand_bytes = ''k'' @ Itoa k @ ''-0123456789abcdefghijklmnopqrstuv'',
               env_sched = []\<rparr>"

definition ex_db0 :: db where
  "ex_db0 = \<lparr>otps = [], otps_id_seq = 1, users = [], users_id_seq = 1\<rparr>"

definition ex_redis0 :: redis where
  "ex_redis0 = \<lparr>rate_limit = (\<lambda>k. None), token = (\<lambda>k. None), user_tokens = (\<lambda>k. None),
                goroutines = []\<rparr>"

definition ex_user :: User where
  "ex_user = \<lparr>user_ID = 7, user_PhoneNumber = ''+1234567890'', user_RegisteredAt = ex_t 0,
              user_LastLoginAt = Some (ex_t 0), user_IsActive = True\<rparr>"

definition ex_claims :: JWTClaims where
  "ex_claims = \<lparr>claim_UserID = 7, claim_PhoneNumber = ''+1234567890'',
                claim_ExpiresAt = ex_t 86400, claim_IssuedAt = ex_t 0,
                claim_NotBefore = ex_t 0, claim_Issuer = ''otp-auth-service'',
                claim_Subject = ''user:7''\<rparr>"

definition ex_jwt :: jwt_library where
  "ex_jwt = \<lparr>SignedString = (\<lambda>secret claims. Inr (''jwt:'' @ claim_Subject claims)),
             ParseWithClaims = (\<lambda>secret t tok.
                if tok \<noteq> ''jwt:user:7'' then Inl ''token is malformed''
                else if ex_t 86400 \<le> t then Inl ''token is expired''
                else Inr ex_claims),
             sha256_hex = (\<lambda>tok. ''sha256:'' @ tok)\<rparr>"

definition ex_js :: jwtService where
  "ex_js = \<lparr>svc_cfg = ex_cfg, svc_jwt = ex_jwt, svc_tokenService = True\<rparr>"

definition ex_issued :: redis where
  "ex_issued = snd (GenerateToken ex_js (ex_env 0) ex_user ex_redis0)"

definition ex_validated :: redis where
  "ex_validated = snd (ValidateToken ex_js (ex_env 10) ''jwt:user:7'' ex_issued)"

definition ex_ttl_read :: redis where
  "ex_ttl_read = schedule (ex_t 11) 0 ex_validated"

definition ex_revoked :: redis where
  "ex_revoked = snd (RevokeToken ex_js (ex_env 12) ''jwt:user:7'' ex_ttl_read)"

definition ex_written_back :: redis where
  "ex_written_back = schedule (ex_t 13) 0 ex_revoked"

definition ex_info :: "int \<Rightarrow> TokenInfo" where
  "ex_info k = \<lparr>ti_UserID = 7, ti_TokenHash = ''sha256:jwt:user:7'', ti_IssuedAt = ex_t 0,
         ti_ExpiresAt = ex_t 86400, ti_LastUsed = ex_t k\<rparr>"

definition ex_env_fault :: "int \<Rightarrow> call \<Rightarrow> env" where
  "ex_env_fault k c =
     (ex_env k)\<lparr>env_fault := (\<lambda>x. if x = c then Some ''connection refused'' else None)\<rparr>"

definition ex_token :: string where
  "ex_token = ''6b302d303132333435363738396162636465666768696a6b6c6d6e6f70717273''"

definition ex_row :: OTP where
  "ex_row = \<lparr>otp_ID = 1, otp_PhoneNumber = ''+1234567890'', otp_Code = ''123456'',
             otp_SessionToken = ex_token, otp_ExpiresAt = ex_t 120, otp_IsUsed = False,
             otp_CreatedAt = ex_t 0, otp_UsedAt = None\<rparr>"

definition ex_db1 :: db where
  "ex_db1 = \<lparr>otps = [ex_row], otps_id_seq = 2, users = [], users_id_seq = 1\<rparr>"

definition ex_new_user :: User where
  "ex_new_user = \<lparr>user_ID = 1, user_PhoneNumber = ''+1234567890'', user_RegisteredAt = ex_t 10,
                  user_LastLoginAt = Some (ex_t 10), user_IsActive = True\<rparr>"

definition ex_db_user :: db where
  "ex_db_user = ex_db1\<lparr>users := [ex_new_user], users_id_seq := 2\<rparr>"

definition ex_mark :: "db \<Rightarrow> db" where
  "ex_mark d = d\<lparr>otps := [ex_row\<lparr>otp_IsUsed := True, otp_UsedAt := Some (ex_t 10)\<rparr>]\<rparr>"

definition ex_raced :: db where
  "ex_raced = snd (VerifyOTP (ex_env 10) ex_token ''123456'' ex_db1)"

definition ex_later :: "request list" where
  "ex_later = [ReqVerify ex_token ''000000'' (ex_env 20), ReqSend ''+1234567890'' (ex_env 30),
               ReqCleanup (ex_env 40)]"

definition ex_cfg_len :: "int \<Rightarrow> Config" where
  "ex_cfg_len n = ex_cfg\<lparr>OTP_Length := n\<rparr>"

definition ex_cfg_max :: "int \<Rightarrow> Config" where
  "ex_cfg_max n = ex_cfg\<lparr>RateLimit_MaxRequests := n\<rparr>"

definition ex_phone :: string where
  "ex_phone = ''+1234567890''"

definition ex_sent_neg :: "db \<times> redis" where
  "ex_sent_neg = snd (SendOTP (ex_cfg_len (- 6)) (ex_env 0) ex_phone (ex_db0, ex_redis0))"

definition ex_three_sends :: "(send_error + OTPResponse) list \<times> db \<times> redis" where
  "ex_three_sends = send_all ex_cfg ex_phone [ex_env 0, ex_env 60, ex_env 120] (ex_db0, ex_redis0)"

text \<open>
  An environment at \<open>k\<close> seconds and \<open>us\<close> microseconds, and one in which the scheduler
  runs the first pending goroutine while \<open>RevokeToken\<close> is between its two commands.
\<close>

definition ex_env_at :: "int \<Rightarrow> int \<Rightarrow> env" where
  "ex_env_at k us = (ex_env k)\<lparr>env_now := ex_t k + us * 1000\<rparr>"

definition ex_env_sched :: "int \<Rightarrow> env" where
  "ex_env_sched k = (ex_env k)\<lparr>env_sched := [0]\<rparr>"

definition ex_self_revoked :: redis where
  "ex_self_revoked = snd (RevokeToken ex_js (ex_env_sched 12) ''jwt:user:7'' ex_issued)"

definition ex_self_written :: redis where
  "ex_self_written = schedule (ex_t 13) 0 ex_self_revoked"

section \<open>Lemmas and theorems\<close>

subsection \<open>Phone number validator\<close>

lemma rep_digits_end:
  "(\<exists>p \<in> set (rep (run (Range CHR ''0'' CHR ''9'')) lo hi (b, s)). snd p = []) \<longleftrightarrow>
   (lo \<le> length s \<and> length s \<le> hi \<and> list_all is_digit s)"
proof (induction hi arbitrary: lo b s)
  case 0
  then show ?case by auto
next
  case (Suc hi)
  show ?case
  proof (cases s)
    case Nil
    then show ?thesis by auto
  next
    case (Cons x xs)
    then show ?thesis using Suc.IH [of "lo - 1" False xs]
      by (auto simp: is_digit_def)
  qed
qed

lemma char_zero_code: "d = CHR ''0'' \<longleftrightarrow> (of_char d :: nat) = 48"
proof -
  have "(of_char d :: nat) = of_char CHR ''0'' \<longleftrightarrow> d = CHR ''0''"
    by (rule of_char_eq_iff)
  then show ?thesis by simp
qed

lemma run_phoneRegex:
  "run phoneRegex (b, s) \<noteq> [] \<longleftrightarrow> b \<and> phone_number_format s"
proof (cases s)
  case Nil
  then show ?thesis by (simp add: phoneRegex_def phone_number_format_def)
next
  case (Cons p t)
  note s = this
  show ?thesis
  proof (cases t)
    case Nil
    with s show ?thesis by (simp add: phoneRegex_def phone_number_format_def)
  next
    case (Cons d ds)
    have e: "(concat (map (run EndText) (rep (run (Range CHR ''0'' CHR ''9'')) 6 14 (False, ds))) \<noteq> [])
        \<longleftrightarrow> (\<exists>q \<in> set (rep (run (Range CHR ''0'' CHR ''9'')) 6 14 (False, ds)). snd q = [])"
      by (auto simp del: rep.simps)
    have nz: "is_digit d \<and> d \<noteq> CHR ''0'' \<longleftrightarrow> (49::nat) \<le> of_char d \<and> (of_char d :: nat) \<le> 57"
      using char_zero_code [of d] by (auto simp: is_digit_def)
    have m: "run phoneRegex (b, p # d # ds) \<noteq> [] \<longleftrightarrow>
        b \<and> p = CHR ''+'' \<and> ((49::nat) \<le> of_char d \<and> (of_char d :: nat) \<le> 57) \<and>
        (\<exists>q \<in> set (rep (run (Range CHR ''0'' CHR ''9'')) 6 14 (False, ds)). snd q = [])"
      unfolding e [symmetric] by (simp add: phoneRegex_def del: rep.simps)
    have f: "phone_number_format (p # d # ds) \<longleftrightarrow>
        p = CHR ''+'' \<and> (is_digit d \<and> d \<noteq> CHR ''0'') \<and>
        (6 \<le> length ds \<and> length ds \<le> 14 \<and> list_all is_digit ds)"
      by (auto simp: phone_number_format_def)
    show ?thesis unfolding s Cons m f nz rep_digits_end by blast
  qed
qed

text \<open>
  C8. The validator returns true for exactly the strings of the format: a leading \<open>+\<close>, a
  first digit 1 to 9, then 6 to 14 more digits and nothing else; for every other string it
  returns false.
\<close>

theorem validatePhoneNumber_format:
  "validatePhoneNumber s = phone_number_format s"
proof -
  have "validatePhoneNumber s \<longleftrightarrow> (\<exists>i \<le> length s. run phoneRegex (i = 0, drop i s) \<noteq> [])"
    by (auto simp: validatePhoneNumber_def MatchString_def list_ex_iff less_Suc_eq_le
        simp del: upt_Suc)
  also have "\<dots> \<longleftrightarrow> run phoneRegex (True, s) \<noteq> []"
    unfolding run_phoneRegex by auto
  finally show ?thesis using run_phoneRegex by simp
qed

theorem validatePhoneNumber_format_witness:
  "validatePhoneNumber ''+1234567890'' \<and> \<not> validatePhoneNumber ''+0234567890'' \<and>
   \<not> validatePhoneNumber ''1234567890'' \<and> \<not> validatePhoneNumber [] \<and>
   \<not> validatePhoneNumber ''+123456'' \<and> validatePhoneNumber ''+1234567'' \<and>
   validatePhoneNumber ''+123456789012345'' \<and> \<not> validatePhoneNumber ''+1234567890123456'' \<and>
   \<not> validatePhoneNumber ''++1234567890'' \<and> \<not> validatePhoneNumber ''+12345 67890'' \<and>
   \<not> validatePhoneNumber ''+12345a7890''"
  unfolding validatePhoneNumber_format
  by (simp add: phone_number_format_def is_digit_def)

subsection \<open>Text values and their columns\<close>

lemma digit_char_ascii:
  assumes "d < 16"
  shows "0 < (of_char (digit_char d) :: nat) \<and> (of_char (digit_char d) :: nat) < 128"
proof -
  from assms consider "d = 0" | "d = 1" | "d = 2" | "d = 3" | "d = 4" | "d = 5" | "d = 6" | "d = 7"
    | "d = 8" | "d = 9" | "d = 10" | "d = 11" | "d = 12" | "d = 13" | "d = 14" | "d = 15"
    by atomize_elim presburger
  then show ?thesis by cases (simp_all add: digit_char_def)
qed

lemma hex_ascii: "\<forall>c \<in> set (hex bytes). 0 < (of_char c :: nat) \<and> (of_char c :: nat) < 128"
proof -
  have "(of_char b :: nat) div 16 < 16" for b :: char
    using nat_of_char_less_256 [of b] by (intro less_mult_imp_div_less) simp
  then show ?thesis using digit_char_ascii by (auto simp: hex_def)
qed

lemma length_hex: "length (hex bytes) = 2 * length bytes"
  by (induction bytes) (simp_all add: hex_def)

lemma utf8_chars_ascii:
  assumes "\<forall>c \<in> set s. 0 < (of_char c :: nat) \<and> (of_char c :: nat) < 128"
  shows "utf8_chars s = Some (map (\<lambda>c. [c]) s)"
  using assms by (induction s) (simp_all add: rune_size_def)

lemma varchar_ascii:
  assumes "\<forall>c \<in> set s. 0 < (of_char c :: nat) \<and> (of_char c :: nat) < 128" and "length s \<le> n"
  shows "varchar n s = Inr s"
  using assms utf8_chars_ascii [OF assms(1)] by (simp add: varchar_def)

lemma varchar_token: "32 \<le> length bytes \<Longrightarrow> varchar 255 (hex (take 32 bytes)) = Inr (hex (take 32 bytes))"
  by (rule varchar_ascii) (simp_all add: hex_ascii length_hex)

lemma generateSessionToken_cases:
  "(\<exists>err. generateSessionToken e = Inl err) \<or>
   (32 \<le> length (env_rand_bytes e) \<and> generateSessionToken e = Inr (hex (take 32 (env_rand_bytes e))))"
  by (simp add: generateSessionToken_def split: option.splits)

lemma newest_mem: "newest xs = Some r \<Longrightarrow> r \<in> set xs"
  by (induction xs arbitrary: r) (auto split: option.splits if_splits)


lemma GetActive_found:
  assumes "GetActiveBySessionTokenAndCode e tok code d = Inr (Some otp)"
  shows "otp \<in> set (otps d) \<and> otp_SessionToken otp = tok \<and> otp_Code otp = code \<and>
         \<not> otp_IsUsed otp \<and> env_now e < otp_ExpiresAt otp"
  using assms newest_mem [of _ otp]
  by (fastforce simp: GetActiveBySessionTokenAndCode_def split: option.splits)

lemma GetActive_consumed:
  assumes "consumed tok d"
  shows "GetActiveBySessionTokenAndCode e tok code d = Inr None \<or>
         (\<exists>m. GetActiveBySessionTokenAndCode e tok code d = Inl m)"
proof -
  have "filter (\<lambda>r. otp_SessionToken r = tok \<and> otp_Code r = code \<and>
                    \<not> otp_IsUsed r \<and> env_now e < otp_ExpiresAt r) (otps d) = []"
    using assms by (auto simp: consumed_def filter_empty_conv)
  then show ?thesis
    by (simp add: GetActiveBySessionTokenAndCode_def split: option.splits)
qed

lemma MarkAsUsed_otps:
  assumes "MarkAsUsed e i d = (res, d')"
  shows "otps d' = otps d \<or>
         otps d' = map (\<lambda>r. if otp_ID r = i \<and> \<not> otp_IsUsed r
                             then r\<lparr>otp_IsUsed := True, otp_UsedAt := Some (env_now e)\<rparr> else r) (otps d)"
  using assms by (auto simp: MarkAsUsed_def Let_def split: option.splits if_splits)

lemma MarkAsUsed_ok:
  assumes "MarkAsUsed e i d = (Inr u, d')"
  shows "otps d' = map (\<lambda>r. if otp_ID r = i \<and> \<not> otp_IsUsed r
                             then r\<lparr>otp_IsUsed := True, otp_UsedAt := Some (env_now e)\<rparr> else r) (otps d)"
    and "users d' = users d"
  using assms by (auto simp: MarkAsUsed_def Let_def split: option.splits if_splits)

lemma MarkAsUsed_tokens:
  assumes "MarkAsUsed e i d = (res, d')"
  shows "map otp_SessionToken (otps d') = map otp_SessionToken (otps d)"
  using MarkAsUsed_otps [OF assms] by (auto simp: comp_def)

lemma MarkAsUsed_consumed:
  assumes "MarkAsUsed e i d = (res, d')" and "consumed tok d"
  shows "consumed tok d'"
  using MarkAsUsed_otps [OF assms(1)] assms(2) by (auto simp: consumed_def)

lemma unique_row:
  assumes "tokens_unique d" and "a \<in> set (otps d)" and "b \<in> set (otps d)"
    and "otp_SessionToken a = otp_SessionToken b"
  shows "a = b"
  using assms by (auto simp: tokens_unique_def distinct_map dest: inj_onD)

lemma MarkAsUsed_consumes:
  assumes u: "tokens_unique d" and m: "otp \<in> set (otps d)" and n: "\<not> otp_IsUsed otp"
    and ok: "MarkAsUsed e (otp_ID otp) d = (Inr x, d')"
    and r: "r \<in> set (otps d')" and t: "otp_SessionToken r = otp_SessionToken otp"
  shows "otp_IsUsed r \<and> otp_UsedAt r = Some (env_now e)"
proof -
  let ?f = "\<lambda>r. if otp_ID r = otp_ID otp \<and> \<not> otp_IsUsed r
                 then r\<lparr>otp_IsUsed := True, otp_UsedAt := Some (env_now e)\<rparr> else r"
  from r MarkAsUsed_ok(1) [OF ok] obtain r0 where r0: "r0 \<in> set (otps d)" and e: "r = ?f r0"
    by auto
  have "otp_SessionToken r0 = otp_SessionToken otp"
    using t e by (auto split: if_splits)
  then have "r0 = otp" using unique_row [OF u r0 m] by simp
  then show ?thesis using e n by simp
qed

lemma user_ops_otps:
  "otps (snd (user_Create e u d)) = otps d"
  "otps (snd (UpdateLastLogin e p d)) = otps d"
  by (auto simp: user_Create_def UpdateLastLogin_def Let_def split: option.splits)

lemma VerifyOTP_found_otps:
  assumes "MarkAsUsed e (otp_ID otp) d = (res, d1)"
  shows "otps (snd (VerifyOTP_found e otp d)) = otps d1"
proof (cases res)
  case (Inl a)
  with assms show ?thesis by (simp add: VerifyOTP_found_def)
next
  case (Inr b)
  have c: "otps (snd (case user_Create e u d1 of
                        (Inl err, d2) \<Rightarrow> (Inl (Wrapf ''failed to create user'' err), d2)
                      | (Inr user, d2) \<Rightarrow> (Inr user, d2))) = otps d1" for u
    using user_ops_otps(1) [of e u d1] by (auto split: prod.splits sum.splits)
  have l: "otps (snd (case UpdateLastLogin e p d1 of
                        (Inl err, d2) \<Rightarrow> (Inl (Wrapf ''failed to update last login'' err), d2)
                      | (Inr x, d2) \<Rightarrow> (Inr user, d2))) = otps d1" for p and user :: User
    using user_ops_otps(2) [of e p d1] by (auto split: prod.splits sum.splits)
  show ?thesis using assms Inr c l
    by (simp add: VerifyOTP_found_def Let_def split: sum.splits option.splits)
qed

lemma VerifyOTP_found_ok:
  assumes "VerifyOTP_found e otp d = (Inr user, d')"
  shows "\<exists>d1. MarkAsUsed e (otp_ID otp) d = (Inr (), d1) \<and> otps d' = otps d1"
proof -
  obtain res d1 where m: "MarkAsUsed e (otp_ID otp) d = (res, d1)" by force
  with assms have "res = Inr ()"
    by (cases res) (auto simp: VerifyOTP_found_def)
  then show ?thesis using m VerifyOTP_found_otps [OF m] assms by simp
qed

lemma VerifyOTP_consumed:
  assumes "consumed tok d"
  shows "consumed tok (snd (VerifyOTP e t c d))"
proof (cases "GetActiveBySessionTokenAndCode e t c d")
  case (Inl a)
  then show ?thesis using assms by (simp add: VerifyOTP_def)
next
  case (Inr o1)
  show ?thesis
  proof (cases o1)
    case None
    with Inr show ?thesis using assms by (simp add: VerifyOTP_def)
  next
    case (Some otp)
    obtain res d1 where m: "MarkAsUsed e (otp_ID otp) d = (res, d1)" by force
    have "otps (snd (VerifyOTP e t c d)) = otps d1"
      using Inr Some VerifyOTP_found_otps [OF m] by (simp add: VerifyOTP_def)
    then show ?thesis using MarkAsUsed_consumed [OF m assms] by (simp add: consumed_def)
  qed
qed

lemma Cleanup_db:
  "otps (fst (snd (CleanupExpiredOTPs cfg e (d, r)))) = otps d \<or>
   otps (fst (snd (CleanupExpiredOTPs cfg e (d, r)))) =
     filter (\<lambda>r. \<not> otp_ExpiresAt r < env_now e) (otps d)"
  by (auto simp: DeleteExpired_def split: option.splits prod.splits sum.splits)

lemma Cleanup_consumed:
  assumes "consumed tok d"
  shows "consumed tok (fst (snd (CleanupExpiredOTPs cfg e (d, r))))"
  using assms Cleanup_db [of cfg e d r] by (auto simp: consumed_def)

lemma otp_Create_otps:
  "otps (snd (otp_Create e otp d)) = otps d \<or>
   (\<exists>row. otps (snd (otp_Create e otp d)) = otps d @ [row] \<and>
      varchar 255 (otp_SessionToken otp) = Inr (otp_SessionToken row) \<and>
      otp_SessionToken row \<notin> set (map otp_SessionToken (otps d)))"
  by (auto simp: otp_Create_def Let_def split: option.splits sum.splits)

lemma otp_Create_consumed:
  assumes "consumed tok d" and "varchar 255 (otp_SessionToken otp) \<noteq> Inr tok"
  shows "consumed tok (snd (otp_Create e otp d))"
  using assms otp_Create_otps [of e otp d] by (auto simp: consumed_def)

lemma SendOTP_db:
  "fst (snd (SendOTP cfg e p (d, r))) = d \<or>
   (\<exists>code. 32 \<le> length (env_rand_bytes e) \<and> fst (snd (SendOTP cfg e p (d, r))) =
      snd (otp_Create e \<lparr>otp_ID = 0, otp_PhoneNumber = p, otp_Code = code,
                         otp_SessionToken = hex (take 32 (env_rand_bytes e)),
                         otp_ExpiresAt = time_Add (env_now e) (OTP_ExpirationTime cfg),
                         otp_IsUsed = False, otp_CreatedAt = 0, otp_UsedAt = None\<rparr> d))"
proof (cases "IsRateLimited cfg e p r")
  case (Inl a)
  then show ?thesis by simp
next
  case (Inr limited)
  note lim = this
  show ?thesis
  proof (cases limited)
    case True
    with lim show ?thesis by simp
  next
    case False
    note nl = this
    show ?thesis
    proof (cases "generateOTPCode cfg e")
      case (Inl a)
      with lim nl show ?thesis by simp
    next
      case (Inr code)
      note c = this
      from generateSessionToken_cases [of e] show ?thesis
      proof (elim disjE exE conjE)
        fix err
        assume "generateSessionToken e = Inl err"
        with lim nl c show ?thesis by simp
      next
        assume b: "32 \<le> length (env_rand_bytes e)"
          and t: "generateSessionToken e = Inr (hex (take 32 (env_rand_bytes e)))"
        have "fst (snd (SendOTP cfg e p (d, r))) =
              snd (otp_Create e \<lparr>otp_ID = 0, otp_PhoneNumber = p, otp_Code = code,
                         otp_SessionToken = hex (take 32 (env_rand_bytes e)),
                         otp_ExpiresAt = time_Add (env_now e) (OTP_ExpirationTime cfg),
                         otp_IsUsed = False, otp_CreatedAt = 0, otp_UsedAt = None\<rparr> d)"
          using lim nl c t by (simp split: prod.splits sum.splits)
        with b show ?thesis by blast
      qed
    qed
  qed
qed

lemma SendOTP_consumed:
  assumes "consumed tok d" and "hex (take 32 (env_rand_bytes e)) \<noteq> tok"
  shows "consumed tok (fst (snd (SendOTP cfg e p (d, r))))"
proof -
  from SendOTP_db [of cfg e p d r] show ?thesis
  proof (elim disjE exE conjE)
    assume "fst (snd (SendOTP cfg e p (d, r))) = d"
    then show ?thesis using assms(1) by simp
  next
    fix code
    let ?otp = "\<lparr>otp_ID = 0, otp_PhoneNumber = p, otp_Code = code,
                 otp_SessionToken = hex (take 32 (env_rand_bytes e)),
                 otp_ExpiresAt = time_Add (env_now e) (OTP_ExpirationTime cfg),
                 otp_IsUsed = False, otp_CreatedAt = 0, otp_UsedAt = None\<rparr>"
    assume b: "32 \<le> length (env_rand_bytes e)"
      and c: "fst (snd (SendOTP cfg e p (d, r))) = snd (otp_Create e ?otp d)"
    have "varchar 255 (otp_SessionToken ?otp) \<noteq> Inr tok"
      using varchar_token [OF b] assms(2) by simp
    from otp_Create_consumed [OF assms(1) this, of e] c show ?thesis by simp
  qed
qed

lemma handle_consumed:
  assumes "consumed tok (fst s)" and "issued_token q \<noteq> Some tok"
  shows "consumed tok (fst (handle cfg q s))"
proof (cases s)
  case (Pair d r)
  show ?thesis
  proof (cases q)
    case (ReqSend p e)
    then show ?thesis using assms Pair SendOTP_consumed [of tok d e cfg p r] by simp
  next
    case (ReqVerify t c e)
    then show ?thesis using assms Pair VerifyOTP_consumed [of tok d e t c] by simp
  next
    case (ReqCleanup e)
    then show ?thesis using assms Pair Cleanup_consumed [of tok d cfg e r] by simp
  qed
qed

lemma run_requests_consumed:
  assumes "consumed tok (fst s)" and "\<forall>q \<in> set qs. issued_token q \<noteq> Some tok"
  shows "consumed tok (fst (run_requests cfg qs s))"
  using assms
proof (induction qs arbitrary: s)
  case Nil
  then show ?case by simp
next
  case (Cons q qs)
  then show ?case using handle_consumed [of tok s q cfg] by simp
qed

lemma VerifyOTP_after_consumed:
  assumes "consumed tok d"
  shows "(\<exists>err. VerifyOTP e tok code d = (Inl err, d)) \<and>
         (env_fault e DB_Select_OTP = None \<longrightarrow>
            VerifyOTP e tok code d = (Inl (Errorf ''invalid or expired OTP''), d))"
  using GetActive_consumed [OF assms, of e code]
  by (auto simp: VerifyOTP_def GetActiveBySessionTokenAndCode_def split: option.splits)

lemma VerifyOTP_success_consumes:
  assumes u: "tokens_unique d" and ok: "VerifyOTP e tok code d = (Inr user, d1)"
  shows "\<forall>r \<in> set (otps d1). otp_SessionToken r = tok \<longrightarrow>
           otp_IsUsed r \<and> otp_UsedAt r = Some (env_now e)"
proof -
  from ok obtain otp where g: "GetActiveBySessionTokenAndCode e tok code d = Inr (Some otp)"
    and f: "VerifyOTP_found e otp d = (Inr user, d1)"
    by (auto simp: VerifyOTP_def split: sum.splits option.splits)
  from VerifyOTP_found_ok [OF f] obtain dm where
    m: "MarkAsUsed e (otp_ID otp) d = (Inr (), dm)" and o: "otps d1 = otps dm" by blast
  note a = GetActive_found [OF g]
  show ?thesis using MarkAsUsed_consumes [OF u _ _ m] a o by auto
qed

text \<open>
  C1. Verification succeeds at most once per challenge. If \<open>VerifyOTP\<close> succeeds for a
  handle and code, then an unused challenge with that handle existed, the success flipped it
  to used and set \<open>used_at\<close>, and after any later requests that do not issue the same handle
  again, a call with the same handle and code never succeeds: it returns
  \<open>invalid or expired OTP\<close> whenever the lookup itself reaches the database.
\<close>

theorem verify_succeeds_at_most_once:
  assumes "tokens_unique d"
    and "VerifyOTP e tok code d = (Inr user, d1)"
    and "\<forall>q \<in> set later. issued_token q \<noteq> Some tok"
    and "run_requests cfg later (d1, r1) = (d2, r2)"
  shows "(\<exists>row \<in> set (otps d). otp_SessionToken row = tok \<and> \<not> otp_IsUsed row) \<and>
         (\<forall>row \<in> set (otps d1). otp_SessionToken row = tok \<longrightarrow>
            otp_IsUsed row \<and> otp_UsedAt row = Some (env_now e)) \<and>
         (\<exists>err. VerifyOTP e' tok code d2 = (Inl err, d2)) \<and>
         (env_fault e' DB_Select_OTP = None \<longrightarrow>
            VerifyOTP e' tok code d2 = (Inl (Errorf ''invalid or expired OTP''), d2))"
proof -
  from assms(2) obtain otp where g: "GetActiveBySessionTokenAndCode e tok code d = Inr (Some otp)"
    by (auto simp: VerifyOTP_def split: sum.splits option.splits)
  have 1: "\<exists>row \<in> set (otps d). otp_SessionToken row = tok \<and> \<not> otp_IsUsed row"
    using GetActive_found [OF g] by blast
  note 2 = VerifyOTP_success_consumes [OF assms(1,2)]
  then have "consumed tok (fst (d1, r1))" by (simp add: consumed_def)
  from run_requests_consumed [OF this assms(3), of cfg] assms(4)
  have "consumed tok d2" by simp
  from VerifyOTP_after_consumed [OF this] 1 2 show ?thesis by blast
qed

lemma Error_wrapped_ne: "Error (Wrapf ''failed to mark OTP as used'' x) \<noteq> ''invalid or expired OTP''"
  by simp

lemma MarkAsUsed_zero_rows:
  assumes "env_fault e DB_Update_OTP = None"
    and "\<forall>r \<in> set (otps d). otp_ID r = i \<longrightarrow> otp_IsUsed r"
  shows "MarkAsUsed e i d = (Inl (Errorf ''OTP not found or already used''), d)"
proof -
  have f: "filter (\<lambda>r. otp_ID r = i \<and> \<not> otp_IsUsed r) (otps d) = []"
    using assms(2) by (auto simp: filter_empty_conv)
  have m: "map (\<lambda>r. if otp_ID r = i \<and> \<not> otp_IsUsed r
                    then r\<lparr>otp_IsUsed := True, otp_UsedAt := Some (env_now e)\<rparr> else r) (otps d) = otps d"
    using assms(2) by (intro map_idI) auto
  show ?thesis using assms(1) f m by (simp add: MarkAsUsed_def)
qed

text \<open>
  C4, as the code has it. When the conditional update affects no row, \<open>VerifyOTP\<close> returns
  the error \<open>failed to mark OTP as used: OTP not found or already used\<close> and leaves the
  store as it was; the controller answers it with status 500, while it answers
  \<open>invalid or expired OTP\<close> with status 401.
\<close>

theorem mark_zero_rows_is_internal_error:
  assumes "env_fault e DB_Update_OTP = None"
    and "\<forall>r \<in> set (otps d). otp_ID r = otp_ID otp \<longrightarrow> otp_IsUsed r"
  shows "VerifyOTP_found e otp d =
           (Inl (Wrapf ''failed to mark OTP as used'' (Errorf ''OTP not found or already used'')), d) \<and>
         VerifyOTP_respond js e (fst (VerifyOTP_found e otp d)) r =
           (JSON 500 (ErrorBody ''Failed to verify OTP'' ''Internal server error''), r) \<and>
         VerifyOTP_respond js e (Inl (Errorf ''invalid or expired OTP'')) r =
           (JSON 401 (ErrorBody ''Invalid or expired OTP'' ''Please request a new OTP''), r)"
proof -
  have 1: "VerifyOTP_found e otp d =
           (Inl (Wrapf ''failed to mark OTP as used'' (Errorf ''OTP not found or already used'')), d)"
    using MarkAsUsed_zero_rows [OF assms] by (simp add: VerifyOTP_found_def)
  show ?thesis unfolding 1 by (simp add: VerifyOTP_respond_def)
qed








text \<open>
  C10. The challenge is consumed before the user is resolved. When the challenge has been
  found and marked as used and one of the user operations then fails (the lookup; the insert,
  when the lookup found no active user; the last-login update, when it found one),
  \<open>VerifyOTP\<close> returns the error of that operation, wrapped with the name of the step; the
  challenge is used afterwards, with \<open>used_at\<close> set, and a retry with the same handle and
  code does not succeed.
\<close>

theorem challenge_consumed_before_user_resolution:
  assumes u: "tokens_unique d"
    and g: "GetActiveBySessionTokenAndCode e tok code d = Inr (Some otp)"
    and m: "MarkAsUsed e (otp_ID otp) d = (Inr (), dm)"
    and f: "(GetByPhoneNumber e (otp_PhoneNumber otp) dm = Inl x \<and>
               step = ''failed to get user'' \<and> d1 = dm) \<or>
            (GetByPhoneNumber e (otp_PhoneNumber otp) dm = Inr None \<and>
               user_Create e \<lparr>user_ID = 0, user_PhoneNumber = otp_PhoneNumber otp,
                               user_RegisteredAt = 0, user_LastLoginAt = None,
                               user_IsActive = False\<rparr> dm = (Inl x, d1) \<and>
               step = ''failed to create user'') \<or>
            ((\<exists>user. GetByPhoneNumber e (otp_PhoneNumber otp) dm = Inr (Some user)) \<and>
               UpdateLastLogin e (otp_PhoneNumber otp) dm = (Inl x, d1) \<and>
               step = ''failed to update last login'')"
  shows "VerifyOTP e tok code d = (Inl (Wrapf step x), d1) \<and>
         (\<forall>row \<in> set (otps d1). otp_SessionToken row = tok \<longrightarrow>
            otp_IsUsed row \<and> otp_UsedAt row = Some (env_now e)) \<and>
         (\<exists>err'. VerifyOTP e' tok code d1 = (Inl err', d1)) \<and>
         (env_fault e' DB_Select_OTP = None \<longrightarrow>
            VerifyOTP e' tok code d1 = (Inl (Errorf ''invalid or expired OTP''), d1))"
proof -
  have v: "VerifyOTP e tok code d = VerifyOTP_found e otp d"
    using g by (simp add: VerifyOTP_def)
  have 1: "VerifyOTP_found e otp d = (Inl (Wrapf step x), d1)"
    using f m by (auto simp: VerifyOTP_found_def)
  have o: "otps d1 = otps dm" using VerifyOTP_found_otps [OF m] 1 by simp
  note a = GetActive_found [OF g]
  have 2: "\<forall>row \<in> set (otps d1). otp_SessionToken row = tok \<longrightarrow>
            otp_IsUsed row \<and> otp_UsedAt row = Some (env_now e)"
    using MarkAsUsed_consumes [OF u _ _ m] a o by auto
  then have "consumed tok d1" by (simp add: consumed_def)
  from VerifyOTP_after_consumed [OF this] v 1 2 show ?thesis by simp
qed

text \<open>
  C7. Whenever signing succeeds, \<open>GenerateToken\<close> returns the signed token and no error,
  whatever the session store does; when the store's write fails, \<open>StoreToken\<close> reports the
  error, which is only logged, and the store is left as it was.
\<close>

theorem GenerateToken_store_failure_tolerated:
  assumes "SignedString (svc_jwt s) (JWT_Secret (svc_cfg s)) (token_claims s e user) = Inr tokenString"
  shows "fst (GenerateToken s e user r) =
           Inr \<lparr>auth_Token = tokenString, auth_User = user,
                auth_ExpiresAt = time_Add (env_now e) (JWT_ExpirationTime (svc_cfg s)),
                auth_Message = ''Authentication successful''\<rparr> \<and>
         (svc_tokenService s \<and> env_fault e Redis_Set_Token = Some m \<longrightarrow>
            StoreToken e (hashToken s tokenString)
               \<lparr>ti_UserID = user_ID user, ti_TokenHash = hashToken s tokenString,
                ti_IssuedAt = env_now e,
                ti_ExpiresAt = time_Add (env_now e) (JWT_ExpirationTime (svc_cfg s)),
                ti_LastUsed = env_now e\<rparr> (JWT_ExpirationTime (svc_cfg s)) r =
              (Inl (Wrapf ''failed to store token in Redis'' (Driver m)), r) \<and>
            snd (GenerateToken s e user r) = r)"
  using assms by (simp add: GenerateToken_def StoreToken_def Let_def)

lemma UpdateRateLimit_fault:
  "env_fault e RL_Set = Some m \<Longrightarrow> snd (UpdateRateLimit cfg e info r) = r"
  by (simp add: UpdateRateLimit_def Let_def split: prod.splits)

lemma updateRateLimit_fault:
  assumes "env_fault e RL_Get_Update = Some m \<or> env_fault e RL_Set = Some m"
  shows "snd (updateRateLimit cfg e p r) = r"
proof (cases "env_fault e RL_Get_Update")
  case (Some a)
  then show ?thesis by (simp add: updateRateLimit_def GetRateLimit_def)
next
  case None
  then have s: "env_fault e RL_Set = Some m" using assms by simp
  show ?thesis
    by (cases "GetRateLimit (env_fault e RL_Get_Update) (env_now e) p r")
       (simp_all add: updateRateLimit_def UpdateRateLimit_fault [OF s] Let_def split: option.splits)
qed

text \<open>
  C6, as the code has it. A failure of the rate limiter's read before issuance blocks the
  send: \<open>SendOTP\<close> returns the error and creates nothing. A failure while the request is
  recorded afterwards (the second read or the write) does not: the record stays as it was,
  and \<open>SendOTP\<close> returns what it returns when these calls succeed.
\<close>

theorem rate_limit_read_failure_blocks_issuance:
  "(env_fault e RL_Get_Check = Some m \<longrightarrow>
      SendOTP cfg e p (d, r) =
        (Inl (SendFailed (Wrapf ''failed to check rate limit''
               (Wrapf ''failed to get rate limit info''
                 (Wrapf ''failed to get rate limit info'' (Driver m))))), d, r)) \<and>
   (env_fault e RL_Get_Update = Some m \<or> env_fault e RL_Set = Some m \<longrightarrow>
      snd (snd (SendOTP cfg e p (d, r))) = r \<and>
      fst (SendOTP cfg e p (d, r)) =
        fst (SendOTP cfg (e\<lparr>env_fault := (env_fault e)(RL_Get_Update := None, RL_Set := None)\<rparr>) p (d, r)))"
proof (intro conjI impI)
  assume "env_fault e RL_Get_Check = Some m"
  then show "SendOTP cfg e p (d, r) =
        (Inl (SendFailed (Wrapf ''failed to check rate limit''
               (Wrapf ''failed to get rate limit info''
                 (Wrapf ''failed to get rate limit info'' (Driver m))))), d, r)"
    by (simp add: IsRateLimited_def GetRateLimit_def)
next
  assume a: "env_fault e RL_Get_Update = Some m \<or> env_fault e RL_Set = Some m"
  have u: "snd (updateRateLimit cfg e p r) = r"
    using a by (rule updateRateLimit_fault)
  show "snd (snd (SendOTP cfg e p (d, r))) = r"
    using u by (simp split: sum.splits bool.splits prod.splits)
  let ?e = "e\<lparr>env_fault := (env_fault e)(RL_Get_Update := None, RL_Set := None)\<rparr>"
  have 1: "IsRateLimited cfg ?e p r = IsRateLimited cfg e p r"
    by (simp add: IsRateLimited_def split: sum.splits option.splits)
  have 2: "generateOTPCode cfg ?e = generateOTPCode cfg e"
    by (simp add: generateOTPCode_def split: option.splits)
  have 3: "generateSessionToken ?e = generateSessionToken e"
    by (simp add: generateSessionToken_def split: option.splits)
  have 4: "otp_Create ?e x d = otp_Create e x d" for x
    by (simp add: otp_Create_def cong: option.case_cong sum.case_cong if_cong)
  show "fst (SendOTP cfg e p (d, r)) = fst (SendOTP cfg ?e p (d, r))"
    by (simp add: 1 2 3 4 split: sum.splits bool.splits prod.splits)
qed

lemma itoa_length_pos: "0 < length (itoa n)"
  by (induction n rule: itoa.induct) (subst itoa.simps, simp)

lemma itoa_length_le: "n < 10 ^ k \<Longrightarrow> 0 < k \<Longrightarrow> length (itoa n) \<le> k"
proof (induction n arbitrary: k rule: itoa.induct)
  case (1 n)
  show ?case
  proof (cases "n < 10")
    case True
    then show ?thesis using "1.prems" by (subst itoa.simps) simp
  next
    case False
    obtain j where k: "k = Suc j" using "1.prems"(2) by (cases k) auto
    have "j \<noteq> 0" using False "1.prems"(1) k by (cases j) auto
    moreover have "n div 10 < 10 ^ j" using "1.prems"(1) k
      by (simp add: less_mult_imp_div_less mult.commute)
    ultimately have "length (itoa (n div 10)) \<le> j" using "1.IH" [OF False, of j] by simp
    then show ?thesis using False k by (subst itoa.simps) simp
  qed
qed

lemma digit_char_code: "d < 10 \<Longrightarrow> (of_char (digit_char d) :: nat) - 48 = d"
proof -
  assume "d < 10"
  then consider "d = 0" | "d = 1" | "d = 2" | "d = 3" | "d = 4" | "d = 5" | "d = 6" | "d = 7"
    | "d = 8" | "d = 9" by atomize_elim presburger
  then show ?thesis by cases (simp_all add: digit_char_def)
qed

lemma parsenum_append:
  "parsenum (xs @ ys) acc = (case parsenum xs acc of None \<Rightarrow> None | Some a \<Rightarrow> parsenum ys a)"
  by (induction xs arbitrary: acc) auto

lemma parsenum_itoa: "parsenum (itoa n) 0 = None \<or> parsenum (itoa n) 0 = Some n"
proof (induction n rule: itoa.induct)
  case (1 n)
  show ?case
  proof (cases "n < 10")
    case True
    then show ?thesis by (subst (1 2) itoa.simps) (simp add: tooLarge_def digit_char_code)
  next
    case False
    have d: "(of_char (digit_char (n mod 10)) :: nat) - 48 = n mod 10"
      by (rule digit_char_code) simp
    have "parsenum (itoa n) 0 =
            (case parsenum (itoa (n div 10)) 0 of
               None \<Rightarrow> None
             | Some a \<Rightarrow> if tooLarge a then None else Some (a * 10 + n mod 10))"
      using False by (subst itoa.simps) (simp add: parsenum_append d split: option.splits)
    moreover have "n div 10 * 10 + n mod 10 = n" by simp
    ultimately show ?thesis using "1.IH" [OF False] by (auto split: if_splits)
  qed
qed

lemma Sprintf_pad_length:
  assumes "x < 10 ^ nat n"
  shows "length (Sprintf_pad n x) = 6 \<longrightarrow> n = 6 \<or> n = - 6"
proof (cases "n = 0")
  case True
  then have "x = 0" using assms by simp
  then show ?thesis using True by (simp add: Sprintf_pad_def itoa.simps [of 0])
next
  case False
  note nz = this
  show ?thesis
  proof (cases "parsenum (itoa (nat \<bar>n\<bar>)) 0")
    case None
    then show ?thesis using nz by (simp add: Sprintf_pad_def Let_def)
  next
    case (Some w)
    then have w: "w = nat \<bar>n\<bar>" using parsenum_itoa [of "nat \<bar>n\<bar>"] by simp
    show ?thesis
    proof (cases "0 < n")
      case True
      then have "length (itoa x) \<le> nat n" using itoa_length_le [OF assms] by simp
      then have "length (Sprintf_pad n x) = nat n"
        using Some w True nz by (simp add: Sprintf_pad_def Let_def)
      then show ?thesis using True by auto
    next
      case False
      then have "x = 0" using assms by simp
      then have "length (Sprintf_pad n x) = nat \<bar>n\<bar>"
        using Some w False nz by (simp add: Sprintf_pad_def Let_def itoa.simps [of 0])
      then show ?thesis using False by auto
    qed
  qed
qed

lemma digit_char_value: "d < 10 \<Longrightarrow> (of_char (digit_char d) :: nat) = 48 + d"
proof -
  assume "d < 10"
  then consider "d = 0" | "d = 1" | "d = 2" | "d = 3" | "d = 4" | "d = 5" | "d = 6" | "d = 7"
    | "d = 8" | "d = 9" by atomize_elim presburger
  then show ?thesis by cases (simp_all add: digit_char_def)
qed

lemma itoa_ascii: "\<forall>c \<in> set (itoa n). (of_char c :: nat) < 128"
proof (induction n rule: itoa.induct)
  case (1 n)
  show ?case
  proof (cases "n < 10")
    case True
    then show ?thesis using digit_char_value [of n] by (subst itoa.simps) simp
  next
    case False
    have "(of_char (digit_char (n mod 10)) :: nat) < 128"
      using digit_char_value [of "n mod 10"] by simp
    then show ?thesis using False "1.IH" by (subst itoa.simps) auto
  qed
qed

lemma Sprintf_pad_ascii: "\<forall>c \<in> set (Sprintf_pad n x). (of_char c :: nat) < 128"
  using itoa_ascii [of x]
  by (auto simp: Sprintf_pad_def Let_def split: option.splits)

lemma RuneCount_ascii:
  "\<forall>c \<in> set s. (of_char c :: nat) < 128 \<Longrightarrow> RuneCountInString s = length s"
  by (induction s) (simp_all add: rune_size_def)

lemma generateOTPCode_length:
  assumes "generateOTPCode cfg e = Inr code" and "OTP_Length cfg \<noteq> 6" and "OTP_Length cfg \<noteq> - 6"
  shows "RuneCountInString code \<noteq> 6"
proof -
  have "env_rand_int e mod 10 ^ nat (OTP_Length cfg) < 10 ^ nat (OTP_Length cfg)"
    by simp
  from Sprintf_pad_length [OF this] assms have "length code \<noteq> 6"
    by (auto simp: generateOTPCode_def Let_def split: option.splits)
  moreover have "RuneCountInString code = length code"
    using assms(1) Sprintf_pad_ascii RuneCount_ascii
    by (auto simp: generateOTPCode_def Let_def split: option.splits)
  ultimately show ?thesis by simp
qed

text \<open>
  C9, as the code has it. For a configured length other than 6 and -6, every code
  \<open>generateOTPCode\<close> returns fails the \<open>len=6\<close> tag: the endpoint answers 400
  "Validation failed" and touches no store.
\<close>

theorem generated_code_fails_len_6_validation:
  assumes "generateOTPCode cfg e0 = Inr code"
    and "OTP_Length cfg \<noteq> 6" and "OTP_Length cfg \<noteq> - 6"
  shows "\<exists>err. ValidateStruct \<lparr>req_Token = tok, req_Code = code\<rparr> = Some err \<and>
           OTPController_VerifyOTP js e (Inr \<lparr>req_Token = tok, req_Code = code\<rparr>) (d, r) =
             (JSON 400 (ErrorBody ''Validation failed'' (Error err)), d, r)"
proof -
  have "RuneCountInString code \<noteq> 6" using generateOTPCode_length [OF assms] .
  then have "\<exists>err. ValidateStruct \<lparr>req_Token = tok, req_Code = code\<rparr> = Some err"
    by (auto simp: ValidateStruct_def Let_def)
  then show ?thesis by auto
qed

lemmas ex_defs = ex_cfg_def ex_t_def ex_env_def ex_db0_def ex_redis0_def ex_user_def ex_jwt_def ex_js_def
  unix_epoch_def Second_def Minute_def Hour_def

lemmas redis_defs = redis_SET_def redis_SADD_def redis_EXPIRE_def redis_GET_def redis_TTL_def
  redis_DEL_def redis_SREM_def redis_expiry_def mstime_def usePrecise_def formatMs_def
  formatSec_def quo_def Millisecond_def Let_def

lemma itoa7: "itoa 7 = ''7''" by (simp add: itoa.simps digit_char_def)

lemma ex_issued_tok: "fst (GenerateToken ex_js (ex_env 0) ex_user ex_redis0) =
    Inr \<lparr>auth_Token = ''jwt:user:7'', auth_User = ex_user, auth_ExpiresAt = ex_t 86400,
          auth_Message = ''Authentication successful''\<rparr>"
  by (simp add: GenerateToken_def ex_defs token_claims_def Let_def Itoa_def itoa7 time_Add_def)

lemma ex_issued_eq: "ex_issued =
   \<lparr>rate_limit = (\<lambda>k. None),
    token = (\<lambda>k. None)(''sha256:jwt:user:7'' \<mapsto>
       (\<lparr>ti_UserID = 7, ti_TokenHash = ''sha256:jwt:user:7'', ti_IssuedAt = ex_t 0,
         ti_ExpiresAt = ex_t 86400, ti_LastUsed = ex_t 0\<rparr>, Some (mstime (ex_t 86400)))),
    user_tokens = (\<lambda>k. None)(7 \<mapsto> ({''sha256:jwt:user:7''}, Some (mstime (ex_t 90000)))),
    goroutines = []\<rparr>"
  by (simp add: ex_issued_def GenerateToken_def ex_defs token_claims_def Let_def Itoa_def itoa7 time_Add_def
      StoreToken_def hashToken_def redis_defs)

lemma ex_validated_eq: "ex_validated =
   \<lparr>rate_limit = (\<lambda>k. None),
    token = (\<lambda>k. None)(''sha256:jwt:user:7'' \<mapsto> (ex_info 0, Some (mstime (ex_t 86400)))),
    user_tokens = (\<lambda>k. None)(7 \<mapsto> ({''sha256:jwt:user:7''}, Some (mstime (ex_t 90000)))),
    goroutines = [ReadTTL ''sha256:jwt:user:7'' (ex_info 10)]\<rparr>"
  unfolding ex_validated_def ex_issued_eq
  by (simp add: ValidateToken_def token_ValidateToken_def updateTokenLastUsed_def ex_defs hashToken_def
      redis_defs ex_info_def ex_claims_def)

lemma ex_ttl_read_eq: "ex_ttl_read =
   \<lparr>rate_limit = (\<lambda>k. None),
    token = (\<lambda>k. None)(''sha256:jwt:user:7'' \<mapsto> (ex_info 0, Some (mstime (ex_t 86400)))),
    user_tokens = (\<lambda>k. None)(7 \<mapsto> ({''sha256:jwt:user:7''}, Some (mstime (ex_t 90000)))),
    goroutines = [WriteBack ''sha256:jwt:user:7'' (ex_info 10) (86389 * Second)]\<rparr>"
  unfolding ex_ttl_read_def ex_validated_eq
  by (simp add: schedule_def refresh_step_def redis_defs ex_defs)

lemma ex_revoked_eq: "ex_revoked =
   \<lparr>rate_limit = (\<lambda>k. None),
    token = (\<lambda>k. None),
    user_tokens = (\<lambda>k. None),
    goroutines = [WriteBack ''sha256:jwt:user:7'' (ex_info 10) (86389 * Second),
                  ReadTTL ''sha256:jwt:user:7'' (ex_info 12)]\<rparr>"
  unfolding ex_revoked_def ex_ttl_read_eq
  by (simp add: RevokeToken_def token_RevokeToken_def token_ValidateToken_def updateTokenLastUsed_def
      ex_defs hashToken_def redis_defs ex_info_def fun_eq_iff)

lemma ex_written_back_eq: "ex_written_back =
   \<lparr>rate_limit = (\<lambda>k. None),
    token = (\<lambda>k. None)(''sha256:jwt:user:7'' \<mapsto> (ex_info 10, Some (mstime (ex_t 86402)))),
    user_tokens = (\<lambda>k. None),
    goroutines = [ReadTTL ''sha256:jwt:user:7'' (ex_info 12)]\<rparr>"
  unfolding ex_written_back_def ex_revoked_eq
  by (simp add: schedule_def refresh_step_def redis_defs ex_defs)

text \<open>
  C2 fails in the code. A token is issued and validated; the goroutine that validation
  started reads the TTL; the token is revoked, and a validation right after is rejected; the
  goroutine then writes the record back, and the revoked token is accepted again although
  the revocation has completed.
\<close>

theorem revoked_token_accepted_after_refresh:
  "fst (ValidateToken ex_js (ex_env 10) ''jwt:user:7'' ex_issued) = Inr ex_claims \<and>
   fst (RevokeToken ex_js (ex_env 12) ''jwt:user:7'' ex_ttl_read) = Inr () \<and>
   fst (ValidateToken ex_js (ex_env 12) ''jwt:user:7'' ex_revoked) = Inl (Errorf ''token session expired'') \<and>
   fst (ValidateToken ex_js (ex_env 20) ''jwt:user:7'' ex_written_back) = Inr ex_claims"
  unfolding ex_issued_eq ex_ttl_read_eq ex_revoked_eq ex_written_back_eq
  by (simp add: ValidateToken_def RevokeToken_def token_RevokeToken_def token_ValidateToken_def
      updateTokenLastUsed_def ex_defs hashToken_def redis_defs ex_info_def)

lemma ex_self_revoked_eq: "ex_self_revoked =
   \<lparr>rate_limit = (\<lambda>k. None),
    token = (\<lambda>k. None),
    user_tokens = (\<lambda>k. None),
    goroutines = [WriteBack ''sha256:jwt:user:7'' (ex_info 12) (86388 * Second)]\<rparr>"
  unfolding ex_self_revoked_def ex_issued_eq
  by (simp add: RevokeToken_def token_RevokeToken_def token_ValidateToken_def updateTokenLastUsed_def
      schedule_def refresh_step_def ex_env_sched_def ex_defs hashToken_def redis_defs ex_info_def
      fun_eq_iff)

lemma ex_self_written_eq: "ex_self_written =
   \<lparr>rate_limit = (\<lambda>k. None),
    token = (\<lambda>k. None)(''sha256:jwt:user:7'' \<mapsto> (ex_info 12, Some (mstime (ex_t 86401)))),
    user_tokens = (\<lambda>k. None),
    goroutines = []\<rparr>"
  unfolding ex_self_written_def ex_self_revoked_eq
  by (simp add: schedule_def refresh_step_def redis_defs ex_defs)

text \<open>
  The goroutine that undoes a revocation can be the one that \<open>RevokeToken\<close> itself starts
  through \<open>ValidateToken\<close>: it reads the TTL before the \<open>DEL\<close> and writes after it.
\<close>

lemma revocation_undone_by_its_own_goroutine:
  "fst (RevokeToken ex_js (ex_env_sched 12) ''jwt:user:7'' ex_issued) = Inr () \<and>
   token ex_self_revoked ''sha256:jwt:user:7'' = None \<and>
   fst (ValidateToken ex_js (ex_env 20) ''jwt:user:7'' ex_self_written) = Inr ex_claims"
  unfolding ex_issued_eq ex_self_revoked_eq ex_self_written_eq
  by (simp add: ValidateToken_def RevokeToken_def token_RevokeToken_def token_ValidateToken_def
      updateTokenLastUsed_def ex_env_sched_def ex_defs hashToken_def redis_defs ex_info_def)

lemma revoke_deletes:
  assumes "svc_tokenService s" and "RevokeToken s e tok r = (Inr (), r1)"
  shows "token r1 (hashToken s tok) = None"
  using assms
  by (auto simp: RevokeToken_def token_RevokeToken_def redis_DEL_def token_ValidateToken_def
      updateTokenLastUsed_def Let_def split: option.splits prod.splits sum.splits)

lemma validate_absent:
  assumes "svc_tokenService s" and "token r (hashToken s tok) = None"
  shows "\<exists>err. ValidateToken s e tok r = (Inl err, r)"
  using assms
  by (auto simp: ValidateToken_def token_ValidateToken_def redis_GET_def split: sum.splits option.splits)

lemma schedule_absent:
  assumes "token r key = None" and "no_pending_write key r"
  shows "token (schedule t i r) key = None \<and> no_pending_write key (schedule t i r)"
proof (cases "i < length (goroutines r)")
  case False
  then show ?thesis using assms by (simp add: schedule_def)
next
  case True
  then have m: "goroutines r ! i \<in> set (goroutines r)" by simp
  have sub: "set (take i (goroutines r) @ drop (Suc i) (goroutines r)) \<subseteq> set (goroutines r)"
    by (auto dest: in_set_takeD in_set_dropD)
  show ?thesis
  proof (cases "goroutines r ! i")
    case (ReadTTL k data)
    show ?thesis
    proof (cases "0 < redis_TTL (token r) t k")
      case False
      then show ?thesis using True ReadTTL assms sub
        by (auto simp: schedule_def refresh_step_def Let_def no_pending_write_def)
    next
      case pos: True
      have "k \<noteq> key" using pos assms(1) by (auto simp: redis_TTL_def)
      moreover have "set ((goroutines r)[i := WriteBack k data (redis_TTL (token r) t k)])
                     \<subseteq> insert (WriteBack k data (redis_TTL (token r) t k)) (set (goroutines r))"
        by (rule set_update_subset_insert)
      ultimately show ?thesis using True ReadTTL assms pos
        by (auto simp: schedule_def refresh_step_def Let_def no_pending_write_def)
    qed
  next
    case (WriteBack k data ttl)
    then have "k \<noteq> key" using m assms(2) by (auto simp: no_pending_write_def)
    then show ?thesis using True WriteBack assms sub
      by (auto simp: schedule_def refresh_step_def Let_def no_pending_write_def redis_SET_def)
  qed
qed

lemma run_schedule_absent:
  assumes "token r key = None" and "no_pending_write key r"
  shows "token (run_schedule steps r) key = None"
  using assms
proof (induction steps arbitrary: r)
  case Nil
  then show ?case by simp
next
  case (Cons a steps)
  obtain t i where a: "a = (t, i)" by (cases a)
  from schedule_absent [OF Cons.prems, of t i] Cons.IH [of "schedule t i r"] a
  show ?case by simp
qed

text \<open>
  Revocation holds when, as it returns, no goroutine has read the TTL of the record and not
  yet written: whatever the goroutines do afterwards, validation is rejected.
\<close>

lemma revoke_holds_without_pending_write:
  assumes "svc_tokenService s" and "RevokeToken s e tok r = (Inr (), r1)"
    and "no_pending_write (hashToken s tok) r1"
  shows "\<exists>err. ValidateToken s e' tok (run_schedule steps r1) = (Inl err, run_schedule steps r1)"
  using validate_absent [OF assms(1)]
    run_schedule_absent [OF revoke_deletes [OF assms(1,2)] assms(3)]
  by blast

subsection \<open>The rate-limit window\<close>

lemma itoa_nonzero: "\<forall>c \<in> set (itoa n). 0 < (of_char c :: nat)"
proof (induction n rule: itoa.induct)
  case (1 n)
  show ?case
  proof (cases "n < 10")
    case True
    then show ?thesis using digit_char_value [of n] by (subst itoa.simps) simp
  next
    case False
    have "0 < (of_char (digit_char (n mod 10)) :: nat)"
      using digit_char_value [of "n mod 10"] by simp
    then show ?thesis using False "1.IH" by (subst itoa.simps) auto
  qed
qed

lemma parsenum_small: "n \<le> 1000000 \<Longrightarrow> parsenum (itoa n) 0 = Some n"
proof (induction n rule: itoa.induct)
  case (1 n)
  show ?case
  proof (cases "n < 10")
    case True
    then show ?thesis by (subst itoa.simps) (simp add: tooLarge_def digit_char_code)
  next
    case False
    have d: "(of_char (digit_char (n mod 10)) :: nat) - 48 = n mod 10"
      by (rule digit_char_code) simp
    have ih: "parsenum (itoa (n div 10)) 0 = Some (n div 10)"
      using "1.IH" [OF False] "1.prems" by simp
    have "\<not> tooLarge (n div 10)" using "1.prems" by (simp add: tooLarge_def)
    then show ?thesis using False ih d
      by (subst itoa.simps) (simp add: parsenum_append)
  qed
qed

lemma Sprintf_pad_text:
  "\<forall>c \<in> set (Sprintf_pad n x). 0 < (of_char c :: nat) \<and> (of_char c :: nat) < 128"
  using itoa_ascii [of x] itoa_nonzero [of x]
  by (auto simp: Sprintf_pad_def Let_def split: option.splits)

lemma Sprintf_pad_tail:
  assumes "- 1000000 \<le> n" and "n \<le> 10" and "x < 10 ^ nat n"
  shows "\<forall>c \<in> set (drop 10 (Sprintf_pad n x)). c = CHR '' ''"
proof -
  have w: "parsenum (itoa (nat \<bar>n\<bar>)) 0 = Some (nat \<bar>n\<bar>)"
    using assms(1,2) by (intro parsenum_small) simp
  consider "n = 0" | "0 < n" | "n < 0" by linarith
  then show ?thesis
  proof cases
    case 1
    then have "x = 0" using assms(3) by simp
    then show ?thesis using 1 by (simp add: Sprintf_pad_def itoa.simps [of 0])
  next
    case 2
    then have "length (itoa x) \<le> nat n" using itoa_length_le [OF assms(3)] by simp
    then have "length (Sprintf_pad n x) = nat n"
      using w 2 by (simp add: Sprintf_pad_def Let_def)
    then show ?thesis using assms(2) by simp
  next
    case 3
    then have "x = 0" using assms(3) by simp
    then have "Sprintf_pad n x = digit_char 0 # replicate (nat \<bar>n\<bar> - 1) CHR '' ''"
      using w 3 by (simp add: Sprintf_pad_def Let_def itoa.simps [of 0])
    then show ?thesis by (auto dest: in_set_dropD)
  qed
qed

lemma varchar_padded:
  assumes "\<forall>c \<in> set s. 0 < (of_char c :: nat) \<and> (of_char c :: nat) < 128"
    and "\<forall>c \<in> set (drop n s). c = CHR '' ''"
  shows "\<exists>v. varchar n s = Inr v"
  using assms(2)
  by (simp add: varchar_def utf8_chars_ascii [OF assms(1)] drop_map list_all_iff)

lemma varchar_text: "varchar n s = Inr v \<Longrightarrow> \<exists>cs. utf8_chars s = Some cs"
  by (auto simp: varchar_def split: option.splits)

lemma generated_code_stored:
  assumes "- 1000000 \<le> OTP_Length cfg" and "OTP_Length cfg \<le> 10"
    and "env_fault e Rand_Int = None"
  shows "\<exists>code v. generateOTPCode cfg e = Inr code \<and> varchar 10 code = Inr v"
proof -
  let ?x = "env_rand_int e mod 10 ^ nat (OTP_Length cfg)"
  have c: "generateOTPCode cfg e = Inr (Sprintf_pad (OTP_Length cfg) ?x)"
    using assms(3) by (simp add: generateOTPCode_def)
  have "?x < 10 ^ nat (OTP_Length cfg)" by simp
  from varchar_padded [OF Sprintf_pad_text Sprintf_pad_tail [OF assms(1,2) this]] c
  show ?thesis by blast
qed

lemma epoch_large: "maxDuration < unix_epoch"
  by (simp add: maxDuration_def unix_epoch_def Second_def)

lemma time_Sub_exact:
  "minDuration \<le> t - u \<Longrightarrow> t - u \<le> maxDuration \<Longrightarrow> time_Sub t u = t - u"
  by (simp add: time_Sub_def)

lemma time_Sub_ge:
  assumes "w \<le> maxDuration" and "w \<le> t - u"
  shows "w \<le> time_Sub t u"
  using assms by (auto simp: time_Sub_def minDuration_def maxDuration_def)

lemma mstime_add: "mstime (a + b) - 1 \<le> mstime a + b div Millisecond"
proof -
  have "a mod 1000000 + b mod 1000000 \<le> 1999999"
    using pos_mod_bound [of 1000000 a] pos_mod_bound [of 1000000 b] by simp
  then have "(a mod 1000000 + b mod 1000000) div 1000000 \<le> 1999999 div 1000000"
    by (rule zdiv_mono1) simp
  then show ?thesis by (simp add: mstime_def Millisecond_def div_add1_eq [of a b])
qed

lemma mstime_mono: "a \<le> b \<Longrightarrow> mstime a \<le> mstime b"
  by (simp add: mstime_def Millisecond_def zdiv_mono1)

lemma mstime_before:
  assumes "t + Millisecond \<le> u"
  shows "mstime t \<le> mstime u - 1"
proof -
  have "mstime (t + Millisecond) = mstime t + 1" by (simp add: mstime_def Millisecond_def)
  then show ?thesis using mstime_mono [OF assms] by simp
qed

lemma SET_expiry:
  assumes "Millisecond \<le> ttl"
  shows "redis_SET m t k v ttl = m(k \<mapsto> (v, Some (mstime t + ttl div Millisecond)))"
proof (cases "usePrecise ttl")
  case True
  then show ?thesis using assms
    by (simp add: redis_SET_def formatMs_def quo_def Millisecond_def)
next
  case False
  then have "ttl mod Second = 0" and s: "Second \<le> ttl" by (simp_all add: usePrecise_def)
  then obtain j where j: "ttl = 1000000000 * j" by (auto simp: Second_def)
  have "1000000000 * j = 1000000 * (1000 * j)" by simp
  then have "ttl div Millisecond = 1000 * j" unfolding j Millisecond_def
    by (metis nonzero_mult_div_cancel_left zero_neq_numeral)
  moreover have "formatSec ttl = j" using s j by (simp add: formatSec_def quo_def Second_def)
  ultimately show ?thesis using False assms
    by (simp add: redis_SET_def Millisecond_def mult.commute)
qed

lemma UpdateRateLimit_open:
  assumes f: "env_fault e RL_Set = None"
    and i: "rl_PhoneNumber info = p" "rl_WindowStartAt info = t0" "rl_RequestCount info = k"
    and z: "t0 \<noteq> 0"
    and t: "t0 \<le> env_now e" "env_now e < t0 + RateLimit_WindowDuration cfg"
    and W: "RateLimit_WindowDuration cfg \<le> maxDuration"
  shows "window_open cfg t0 p k (snd (UpdateRateLimit cfg e info r))"
proof -
  let ?W = "RateLimit_WindowDuration cfg" and ?now = "env_now e"
  let ?ttl = "t0 + ?W - ?now"
  let ?ttl2 = "if ?ttl < Minute then Minute else ?ttl"
  have e2: "time_Sub (t0 + ?W) ?now = ?ttl"
    using t W by (intro time_Sub_exact) (auto simp: minDuration_def)
  have pos: "0 < ?ttl" using t by simp
  have ms: "Millisecond \<le> ?ttl2" by (simp add: Minute_def Second_def Millisecond_def)
  have u: "snd (UpdateRateLimit cfg e info r) =
           r\<lparr>rate_limit := redis_SET (rate_limit r) ?now p info ?ttl2\<rparr>"
    using f i z e2 pos by (simp add: UpdateRateLimit_def Let_def IsZero_def time_Add_def)
  have "?ttl div Millisecond \<le> ?ttl2 div Millisecond"
    by (intro zdiv_mono1) (simp_all add: Millisecond_def)
  moreover have "mstime (?now + ?ttl) - 1 \<le> mstime ?now + ?ttl div Millisecond"
    by (rule mstime_add)
  ultimately have "mstime (t0 + ?W) - 1 \<le> mstime ?now + ?ttl2 div Millisecond" by simp
  then show ?thesis unfolding u SET_expiry [OF ms] using i by (simp add: window_open_def)
qed

lemma window_open_live:
  assumes o: "window_open cfg t0 p k r"
    and t: "t + Millisecond \<le> t0 + RateLimit_WindowDuration cfg"
  shows "\<exists>info. redis_GET (rate_limit r) t p = Some info \<and> rl_PhoneNumber info = p \<and>
           rl_RequestCount info = k \<and> rl_WindowStartAt info = t0"
proof -
  from o obtain info x where s: "rate_limit r p = Some (info, Some x)"
    and i: "rl_PhoneNumber info = p" "rl_RequestCount info = k" "rl_WindowStartAt info = t0"
    and x: "mstime (t0 + RateLimit_WindowDuration cfg) - 1 \<le> x"
    by (auto simp: window_open_def split: option.splits prod.splits)
  have "mstime t \<le> x" using mstime_before [OF t] x by simp
  then show ?thesis using s i by (simp add: redis_GET_def)
qed

lemma send_ok_prefix:
  assumes nf: "no_faults e"
    and fresh: "issued e \<notin> set (map otp_SessionToken (otps d))"
    and nl: "IsRateLimited cfg e p r = Inr False"
    and ph: "varchar 15 p = Inr q"
    and L: "- 1000000 \<le> OTP_Length cfg" "OTP_Length cfg \<le> 10"
  shows "\<exists>resp d1. SendOTP cfg e p (d, r) = (Inr resp, d1, snd (updateRateLimit cfg e p r)) \<and>
           set (map otp_SessionToken (otps d1)) = insert (issued e) (set (map otp_SessionToken (otps d)))"
proof -
  have f: "env_fault e c = None" for c using nf by (simp add: no_faults_def)
  have b: "32 \<le> length (env_rand_bytes e)" using nf by (simp add: no_faults_def)
  from generated_code_stored [OF L f] obtain code v where
    c: "generateOTPCode cfg e = Inr code" and cv: "varchar 10 code = Inr v" by blast
  have t: "generateSessionToken e = Inr (issued e)"
    using b by (auto simp: generateSessionToken_def f issued_def)
  have tv: "varchar 255 (issued e) = Inr (issued e)"
    unfolding issued_def using b by (rule varchar_token)
  let ?otp = "\<lparr>otp_ID = 0, otp_PhoneNumber = p, otp_Code = code, otp_SessionToken = issued e,
               otp_ExpiresAt = time_Add (env_now e) (OTP_ExpirationTime cfg),
               otp_IsUsed = False, otp_CreatedAt = 0, otp_UsedAt = None\<rparr>"
  obtain row d1 where cr: "otp_Create e ?otp d = (Inr row, d1)"
    and d1: "otps d1 = otps d @ [row]" and tk: "otp_SessionToken row = issued e"
    using fresh varchar_text [OF ph] varchar_text [OF cv] varchar_text [OF tv] ph cv tv
    by (auto simp: otp_Create_def f Let_def)
  show ?thesis using nl c t cr d1 tk by simp
qed

lemma update_in_window:
  assumes o: "window_open cfg t0 p k r"
    and t: "t0 \<le> env_now e" "env_now e + Millisecond \<le> t0 + RateLimit_WindowDuration cfg"
    and W: "RateLimit_WindowDuration cfg \<le> maxDuration"
    and z: "t0 \<noteq> 0"
    and nf: "no_faults e"
  shows "window_open cfg t0 p (k + 1) (snd (updateRateLimit cfg e p r))"
proof -
  have f: "env_fault e c = None" for c using nf by (simp add: no_faults_def)
  from window_open_live [OF o t(2)] obtain info where
    g: "redis_GET (rate_limit r) (env_now e) p = Some info"
    and i: "rl_PhoneNumber info = p" "rl_RequestCount info = k" "rl_WindowStartAt info = t0"
    by blast
  have lt: "env_now e < t0 + RateLimit_WindowDuration cfg"
    using t(2) by (simp add: Millisecond_def)
  have e1: "time_Sub (env_now e) t0 = env_now e - t0"
    using t(1) lt W by (intro time_Sub_exact) (auto simp: minDuration_def)
  let ?info = "info\<lparr>rl_RequestCount := k + 1, rl_LastRequestAt := env_now e\<rparr>"
  have u: "updateRateLimit cfg e p r = UpdateRateLimit cfg e ?info r"
    using g i lt e1 by (simp add: updateRateLimit_def GetRateLimit_def f Let_def)
  show ?thesis unfolding u
    using i by (intro UpdateRateLimit_open [OF f _ _ _ z t(1) lt W]) simp_all
qed

lemma check_in_window:
  assumes o: "window_open cfg t0 p k r"
    and t: "t0 \<le> env_now e" "env_now e + Millisecond \<le> t0 + RateLimit_WindowDuration cfg"
    and W: "RateLimit_WindowDuration cfg \<le> maxDuration"
    and nf: "env_fault e RL_Get_Check = None"
  shows "IsRateLimited cfg e p r = Inr (RateLimit_MaxRequests cfg \<le> k)"
    and "map_option rl_RequestCount (stored r (env_now e) p) = Some k"
proof -
  from window_open_live [OF o t(2)] obtain info where
    g: "redis_GET (rate_limit r) (env_now e) p = Some info"
    and i: "rl_PhoneNumber info = p" "rl_RequestCount info = k" "rl_WindowStartAt info = t0"
    by blast
  have lt: "env_now e < t0 + RateLimit_WindowDuration cfg"
    using t(2) by (simp add: Millisecond_def)
  have e1: "time_Sub (env_now e) t0 = env_now e - t0"
    using t(1) lt W by (intro time_Sub_exact) (auto simp: minDuration_def)
  show "IsRateLimited cfg e p r = Inr (RateLimit_MaxRequests cfg \<le> k)"
    using g i lt e1 nf by (simp add: IsRateLimited_def GetRateLimit_def)
  show "map_option rl_RequestCount (stored r (env_now e) p) = Some k"
    using g i by (simp add: stored_def)
qed

lemma check_window_over:
  assumes o: "window_over cfg (env_now e) p r"
    and W: "RateLimit_WindowDuration cfg \<le> maxDuration"
    and ep: "unix_epoch \<le> env_now e"
    and nf: "env_fault e RL_Get_Check = None"
  shows "IsRateLimited cfg e p r = Inr False"
proof -
  have z: "RateLimit_WindowDuration cfg \<le> time_Sub (env_now e) 0"
    using W ep epoch_large by (intro time_Sub_ge) auto
  show ?thesis
    using o nf z
    by (auto simp: IsRateLimited_def GetRateLimit_def window_over_def stored_def split: option.splits)
qed

lemma update_window_over:
  assumes o: "window_over cfg (env_now e) p r"
    and W: "RateLimit_WindowDuration cfg \<le> maxDuration" "0 < RateLimit_WindowDuration cfg"
    and ep: "unix_epoch \<le> env_now e"
    and nf: "no_faults e"
  shows "window_open cfg (env_now e) p 1 (snd (updateRateLimit cfg e p r))"
proof -
  have f: "env_fault e c = None" for c using nf by (simp add: no_faults_def)
  have z: "RateLimit_WindowDuration cfg \<le> time_Sub (env_now e) 0"
    using W ep epoch_large by (intro time_Sub_ge) auto
  have nz: "env_now e \<noteq> 0" using ep by (auto simp: unix_epoch_def Second_def)
  have "\<exists>info. updateRateLimit cfg e p r = UpdateRateLimit cfg e info r \<and>
          rl_PhoneNumber info = p \<and> rl_WindowStartAt info = env_now e \<and> rl_RequestCount info = 1"
  proof (cases "stored r (env_now e) p")
    case None
    then show ?thesis using z
      by (intro exI [of _ "\<lparr>rl_PhoneNumber = p, rl_RequestCount = 1,
                             rl_LastRequestAt = env_now e, rl_WindowStartAt = env_now e\<rparr>"])
         (simp add: updateRateLimit_def GetRateLimit_def f Let_def stored_def)
  next
    case (Some info)
    then have "rl_PhoneNumber info = p"
      "RateLimit_WindowDuration cfg \<le> time_Sub (env_now e) (rl_WindowStartAt info)"
      using o by (auto simp: window_over_def)
    then show ?thesis using Some
      by (intro exI [of _ "info\<lparr>rl_RequestCount := 1, rl_WindowStartAt := env_now e,
                                rl_LastRequestAt := env_now e\<rparr>"])
         (simp add: updateRateLimit_def GetRateLimit_def f Let_def stored_def)
  qed
  then obtain info where u: "updateRateLimit cfg e p r = UpdateRateLimit cfg e info r"
    and i: "rl_PhoneNumber info = p" "rl_WindowStartAt info = env_now e" "rl_RequestCount info = 1"
    by blast
  show ?thesis unfolding u
    using W(2) by (intro UpdateRateLimit_open [OF f i nz _ _ W(1)]) simp_all
qed

lemma open_then_over:
  assumes o: "window_open cfg t0 p k r"
    and a: "RateLimit_WindowDuration cfg \<le> t - t0"
    and W: "RateLimit_WindowDuration cfg \<le> maxDuration"
  shows "window_over cfg t p r"
proof -
  from o obtain info x where s: "rate_limit r p = Some (info, Some x)"
    and i: "rl_PhoneNumber info = p" "rl_WindowStartAt info = t0"
    by (auto simp: window_open_def split: option.splits prod.splits)
  have "RateLimit_WindowDuration cfg \<le> time_Sub t t0"
    using W a by (rule time_Sub_ge)
  then show ?thesis using s i
    by (simp add: window_over_def stored_def redis_GET_def)
qed

lemma send_limited:
  assumes "IsRateLimited cfg e p r = Inr True"
  shows "SendOTP cfg e p (d, r) =
           (Inl (RateLimitExceeded (RateLimit_MaxRequests cfg) (RateLimit_WindowDuration cfg)), d, r)"
  using assms by simp

lemma sends_in_window:
  assumes "window_open cfg t0 p k r"
    and "k + int (length es) \<le> RateLimit_MaxRequests cfg"
    and "\<forall>e \<in> set es. t0 \<le> env_now e \<and> env_now e + Millisecond \<le> t0 + RateLimit_WindowDuration cfg"
    and "RateLimit_WindowDuration cfg \<le> maxDuration" and "t0 \<noteq> 0"
    and "\<forall>e \<in> set es. no_faults e"
    and "distinct (map issued es)"
    and "\<forall>e \<in> set es. issued e \<notin> set (map otp_SessionToken (otps d))"
    and "varchar 15 p = Inr q"
    and "- 1000000 \<le> OTP_Length cfg" and "OTP_Length cfg \<le> 10"
  shows "\<exists>rs d' r'. send_all cfg p es (d, r) = (rs, d', r') \<and> length rs = length es \<and>
           (\<forall>res \<in> set rs. \<exists>resp. res = Inr resp) \<and>
           window_open cfg t0 p (k + int (length es)) r' \<and>
           set (map otp_SessionToken (otps d')) = set (map otp_SessionToken (otps d)) \<union> issued ` set es"
  using assms
proof (induction es arbitrary: k d r)
  case Nil
  then show ?case by simp
next
  case (Cons e es)
  have nf: "no_faults e" using Cons.prems(6) by simp
  then have f: "env_fault e RL_Get_Check = None" by (simp add: no_faults_def)
  have t: "t0 \<le> env_now e" "env_now e + Millisecond \<le> t0 + RateLimit_WindowDuration cfg"
    using Cons.prems(3) by simp_all
  have "\<not> RateLimit_MaxRequests cfg \<le> k" using Cons.prems(2) by simp
  then have nl: "IsRateLimited cfg e p r = Inr False"
    using check_in_window(1) [OF Cons.prems(1) t Cons.prems(4) f] by simp
  have fr: "issued e \<notin> set (map otp_SessionToken (otps d))" using Cons.prems(8) by simp
  from send_ok_prefix [OF nf fr nl Cons.prems(9,10,11)] obtain resp d1 where
    s: "SendOTP cfg e p (d, r) = (Inr resp, d1, snd (updateRateLimit cfg e p r))"
    and d1: "set (map otp_SessionToken (otps d1)) = insert (issued e) (set (map otp_SessionToken (otps d)))"
    by blast
  let ?r1 = "snd (updateRateLimit cfg e p r)"
  have o1: "window_open cfg t0 p (k + 1) ?r1"
    using update_in_window [OF Cons.prems(1) t Cons.prems(4,5) nf] .
  have fr1: "\<forall>e' \<in> set es. issued e' \<notin> set (map otp_SessionToken (otps d1))"
    using Cons.prems(7,8) d1 by (auto simp: image_iff)
  from Cons.IH [OF o1 _ _ Cons.prems(4,5) _ _ fr1 Cons.prems(9,10,11)] Cons.prems(2,3,6,7)
  obtain rs d' r' where
    a: "send_all cfg p es (d1, ?r1) = (rs, d', r')" "length rs = length es"
      "\<forall>res \<in> set rs. \<exists>resp. res = Inr resp"
      "window_open cfg t0 p (k + 1 + int (length es)) r'"
      "set (map otp_SessionToken (otps d')) = set (map otp_SessionToken (otps d1)) \<union> issued ` set es"
    by auto
  have "k + 1 + int (length es) = k + int (length (e # es))" by simp
  with a s d1 show ?case by auto
qed

text \<open>
  C3, as the code has it. Let \<open>M\<close> be the configured maximum, or 1 if that is below 1. The
  phone number is one the column \<open>VARCHAR(15)\<close> stores, and the configured code length is at
  most 10, the width of the code column (and not below \<open>-10^6\<close>, where the format breaks).
  Starting at a send that finds no record or an elapsed window, \<open>M\<close> sends in the window,
  each at least a millisecond before its end, are all allowed and leave the stored count at
  \<open>M\<close>; the next send at least a millisecond before the end of the window is rejected as
  rate limited and changes nothing; and a send at or after window start plus window duration
  is allowed and stores count 1 with its own instant as window start. No call fails, and the
  handles issued are fresh. The last millisecond of the window is left out because the record
  is stored with its remaining time in whole milliseconds, truncated, and can be gone by then.
\<close>

theorem rate_limit_window:
  assumes W: "RateLimit_WindowDuration cfg \<le> maxDuration"
    and len: "length (e1 # rest) = nat (max (RateLimit_MaxRequests cfg) 1)"
    and epoch: "unix_epoch \<le> env_now e1"
    and start: "window_over cfg (env_now e1) p r0"
    and within: "\<forall>e \<in> set (rest @ [e_over]).
                   env_now e1 \<le> env_now e \<and>
                   env_now e + Millisecond \<le> env_now e1 + RateLimit_WindowDuration cfg"
    and after: "RateLimit_WindowDuration cfg \<le> env_now e_next - env_now e1"
    and nf: "\<forall>e \<in> set (e1 # rest @ [e_over, e_next]). no_faults e"
    and fresh: "distinct (map issued (e1 # rest @ [e_next]))"
      "\<forall>e \<in> set (e1 # rest @ [e_next]). issued e \<notin> set (map otp_SessionToken (otps d0))"
    and phone: "varchar 15 p = Inr q"
    and code: "- 1000000 \<le> OTP_Length cfg" "OTP_Length cfg \<le> 10"
    and run: "send_all cfg p (e1 # rest) (d0, r0) = (rs, s1)"
      "SendOTP cfg e_over p s1 = (res_over, s2)"
      "SendOTP cfg e_next p s2 = (res_next, s3)"
  shows "length rs = nat (max (RateLimit_MaxRequests cfg) 1) \<and>
         (\<forall>res \<in> set rs. \<exists>resp. res = Inr resp) \<and>
         map_option rl_RequestCount (stored (snd s1) (env_now e_over) p) =
           Some (max (RateLimit_MaxRequests cfg) 1) \<and>
         res_over = Inl (RateLimitExceeded (RateLimit_MaxRequests cfg) (RateLimit_WindowDuration cfg)) \<and>
         s2 = s1 \<and>
         (\<exists>resp. res_next = Inr resp) \<and>
         map_option rl_RequestCount (stored (snd s3) (env_now e_next) p) = Some 1 \<and>
         map_option rl_WindowStartAt (stored (snd s3) (env_now e_next) p) = Some (env_now e_next)"
proof -
  let ?N = "RateLimit_MaxRequests cfg" and ?W = "RateLimit_WindowDuration cfg"
  let ?t0 = "env_now e1"
  have Wms: "Millisecond \<le> ?W" using within by auto
  then have Wpos: "0 < ?W" by (simp add: Millisecond_def)
  have z: "?t0 \<noteq> 0" using epoch by (auto simp: unix_epoch_def Second_def)
  have nf1: "no_faults e1" and nfo: "no_faults e_over" and nfn: "no_faults e_next"
    using nf by simp_all
  \<comment> \<open>the first send opens the window\<close>
  have c1: "IsRateLimited cfg e1 p r0 = Inr False"
    using check_window_over [OF start W epoch] nf1 by (simp add: no_faults_def)
  have fr1: "issued e1 \<notin> set (map otp_SessionToken (otps d0))" using fresh(2) by simp
  from send_ok_prefix [OF nf1 fr1 c1 phone code] obtain resp1 d1 where
    s1: "SendOTP cfg e1 p (d0, r0) = (Inr resp1, d1, snd (updateRateLimit cfg e1 p r0))"
    and d1: "set (map otp_SessionToken (otps d1)) = insert (issued e1) (set (map otp_SessionToken (otps d0)))"
    by blast
  let ?r1 = "snd (updateRateLimit cfg e1 p r0)"
  have o1: "window_open cfg ?t0 p 1 ?r1"
    using update_window_over [OF start W Wpos epoch nf1] .
  \<comment> \<open>the sends that follow inside the window\<close>
  have l: "1 + int (length rest) \<le> ?N \<or> rest = []" using len by (cases "?N \<le> 1") auto
  have l': "1 + int (length rest) \<le> ?N" if "rest \<noteq> []" using l that by simp
  have "\<exists>rs' d' r'. send_all cfg p rest (d1, ?r1) = (rs', d', r') \<and> length rs' = length rest \<and>
           (\<forall>res \<in> set rs'. \<exists>resp. res = Inr resp) \<and>
           window_open cfg ?t0 p (1 + int (length rest)) r' \<and>
           set (map otp_SessionToken (otps d')) = set (map otp_SessionToken (otps d1)) \<union> issued ` set rest"
  proof (cases "rest = []")
    case True
    then show ?thesis using o1 by simp
  next
    case False
    have "\<forall>e \<in> set rest. ?t0 \<le> env_now e \<and> env_now e + Millisecond \<le> ?t0 + ?W"
      using within by simp
    moreover have "\<forall>e \<in> set rest. no_faults e" using nf by simp
    moreover have "distinct (map issued rest)" using fresh(1) by simp
    moreover have "\<forall>e \<in> set rest. issued e \<notin> set (map otp_SessionToken (otps d1))"
      using fresh d1 by (auto simp: image_iff)
    ultimately show ?thesis
      using sends_in_window [OF o1 l' [OF False] _ W z _ _ _ phone code] by blast
  qed
  then obtain rs' d' r' where
    a: "send_all cfg p rest (d1, ?r1) = (rs', d', r')" "length rs' = length rest"
      "\<forall>res \<in> set rs'. \<exists>resp. res = Inr resp"
      "window_open cfg ?t0 p (1 + int (length rest)) r'"
      "set (map otp_SessionToken (otps d')) = set (map otp_SessionToken (otps d1)) \<union> issued ` set rest"
    by blast
  have rs: "rs = Inr resp1 # rs'" and s1': "s1 = (d', r')" using run(1) s1 a(1) by simp_all
  have cnt: "1 + int (length rest) = max ?N 1" using len by auto
  have o': "window_open cfg ?t0 p (max ?N 1) r'" using a(4) cnt by simp
  \<comment> \<open>the send over the limit\<close>
  have to: "?t0 \<le> env_now e_over" "env_now e_over + Millisecond \<le> ?t0 + ?W"
    using within by simp_all
  have fo: "env_fault e_over RL_Get_Check = None" using nfo by (simp add: no_faults_def)
  have "IsRateLimited cfg e_over p r' = Inr True"
    using check_in_window(1) [OF o' to W fo] by simp
  from send_limited [OF this, of d'] run(2) s1'
  have over: "res_over = Inl (RateLimitExceeded ?N ?W)" "s2 = s1" by simp_all
  have stored1: "map_option rl_RequestCount (stored (snd s1) (env_now e_over) p) = Some (max ?N 1)"
    using check_in_window(2) [OF o' to W fo] s1' by simp
  \<comment> \<open>the first send after the window\<close>
  have ov: "window_over cfg (env_now e_next) p r'" using open_then_over [OF o' after W] .
  have epn: "unix_epoch \<le> env_now e_next" using epoch after Wpos by simp
  have cn: "IsRateLimited cfg e_next p r' = Inr False"
    using check_window_over [OF ov W epn] nfn by (simp add: no_faults_def)
  have frn: "issued e_next \<notin> set (map otp_SessionToken (otps d'))"
    using fresh a(5) d1 by (auto simp: image_iff)
  from send_ok_prefix [OF nfn frn cn phone code] obtain respn dn where
    sn: "SendOTP cfg e_next p (d', r') = (Inr respn, dn, snd (updateRateLimit cfg e_next p r'))"
    by blast
  have on: "window_open cfg (env_now e_next) p 1 (snd (updateRateLimit cfg e_next p r'))"
    using update_window_over [OF ov W Wpos epn nfn] .
  have s3: "res_next = Inr respn" "snd s3 = snd (updateRateLimit cfg e_next p r')"
    using run(3) over(2) s1' sn by simp_all
  have "env_now e_next + Millisecond \<le> env_now e_next + ?W" using Wms by simp
  from window_open_live [OF on this]
  have stored3: "map_option rl_RequestCount (stored (snd s3) (env_now e_next) p) = Some 1"
      "map_option rl_WindowStartAt (stored (snd s3) (env_now e_next) p) = Some (env_now e_next)"
    unfolding s3(2) by (auto simp: stored_def)
  have "length rs = nat (max ?N 1)" using rs a(2) len by simp
  moreover have "\<forall>res \<in> set rs. \<exists>resp. res = Inr resp" using rs a(3) by simp
  ultimately show ?thesis using stored1 over s3(1) stored3 by blast
qed

lemma distinct_map_filter_keep: "distinct (map f xs) \<Longrightarrow> distinct (map f (filter P xs))"
  by (induction xs) auto

lemma VerifyOTP_tokens:
  "map otp_SessionToken (otps (snd (VerifyOTP e t c d))) = map otp_SessionToken (otps d)"
proof (cases "GetActiveBySessionTokenAndCode e t c d")
  case (Inl a)
  then show ?thesis by (simp add: VerifyOTP_def)
next
  case (Inr o1)
  show ?thesis
  proof (cases o1)
    case None
    with Inr show ?thesis by (simp add: VerifyOTP_def)
  next
    case (Some otp)
    obtain res d1 where m: "MarkAsUsed e (otp_ID otp) d = (res, d1)" by force
    have "otps (snd (VerifyOTP e t c d)) = otps d1"
      using Inr Some VerifyOTP_found_otps [OF m] by (simp add: VerifyOTP_def)
    then show ?thesis using MarkAsUsed_tokens [OF m] by simp
  qed
qed

lemma handle_tokens_unique:
  assumes "tokens_unique (fst s)"
  shows "tokens_unique (fst (handle cfg q s))"
proof (cases s)
  case (Pair d r)
  show ?thesis
  proof (cases q)
    case (ReqSend p e)
    from SendOTP_db [of cfg e p d r] show ?thesis
    proof (elim disjE exE conjE)
      assume "fst (snd (SendOTP cfg e p (d, r))) = d"
      then show ?thesis using assms Pair ReqSend by simp
    next
      fix code
      let ?otp = "\<lparr>otp_ID = 0, otp_PhoneNumber = p, otp_Code = code,
                   otp_SessionToken = hex (take 32 (env_rand_bytes e)),
                   otp_ExpiresAt = time_Add (env_now e) (OTP_ExpirationTime cfg),
                   otp_IsUsed = False, otp_CreatedAt = 0, otp_UsedAt = None\<rparr>"
      assume "fst (snd (SendOTP cfg e p (d, r))) = snd (otp_Create e ?otp d)"
      then show ?thesis using assms Pair ReqSend otp_Create_otps [of e ?otp d]
        by (auto simp: tokens_unique_def)
    qed
  next
    case (ReqVerify t c e)
    then show ?thesis using assms Pair VerifyOTP_tokens [of e t c d]
      by (simp add: tokens_unique_def)
  next
    case (ReqCleanup e)
    then show ?thesis using assms Pair Cleanup_db [of cfg e d r]
      by (auto simp: tokens_unique_def distinct_map_filter_keep)
  qed
qed

lemma run_requests_tokens_unique:
  assumes "tokens_unique (fst s)"
  shows "tokens_unique (fst (run_requests cfg qs s))"
  using assms
proof (induction qs arbitrary: s)
  case Nil
  then show ?case by simp
next
  case (Cons q qs)
  then show ?case using handle_tokens_unique [of s cfg q] by simp
qed

lemmas ex_defs2 = ex_defs ex_env_fault_def ex_token_def ex_row_def ex_db1_def ex_new_user_def

lemma ex_verify: "VerifyOTP (ex_env 10) ex_token ''123456'' ex_db1 = (Inr ex_new_user, ex_raced)"
  unfolding ex_raced_def
  by (simp add: VerifyOTP_def VerifyOTP_found_def GetActiveBySessionTokenAndCode_def MarkAsUsed_def
      GetByPhoneNumber_def user_Create_def ex_defs2 Let_def)

lemma ex_raced_eq: "ex_raced =
    \<lparr>otps = [ex_row\<lparr>otp_IsUsed := True, otp_UsedAt := Some (ex_t 10)\<rparr>], otps_id_seq = 2,
     users = [ex_new_user], users_id_seq = 2\<rparr>"
  unfolding ex_raced_def
  by (simp add: VerifyOTP_def VerifyOTP_found_def GetActiveBySessionTokenAndCode_def MarkAsUsed_def
      GetByPhoneNumber_def user_Create_def ex_defs2 Let_def)

text \<open>
  C1 at a concrete store: one challenge, a successful verification, then a wrong-code attempt,
  another send and a cleanup, and the repeated verification fails.
\<close>

theorem verify_succeeds_at_most_once_witness:
  "tokens_unique ex_db1 \<and>
   VerifyOTP (ex_env 10) ex_token ''123456'' ex_db1 = (Inr ex_new_user, ex_raced) \<and>
   VerifyOTP (ex_env 50) ex_token ''123456'' (fst (run_requests ex_cfg ex_later (ex_raced, ex_redis0))) =
     (Inl (Errorf ''invalid or expired OTP''), fst (run_requests ex_cfg ex_later (ex_raced, ex_redis0)))"
proof -
  have u: "tokens_unique ex_db1" by (simp add: tokens_unique_def ex_defs2)
  have l: "\<forall>q \<in> set ex_later. issued_token q \<noteq> Some ex_token"
    by (simp add: ex_later_def ex_defs ex_token_def Itoa_def itoa.simps digit_char_def hex_def)
  have r: "run_requests ex_cfg ex_later (ex_raced, ex_redis0) =
           (fst (run_requests ex_cfg ex_later (ex_raced, ex_redis0)),
            snd (run_requests ex_cfg ex_later (ex_raced, ex_redis0)))" by simp
  have f: "env_fault (ex_env 50) DB_Select_OTP = None" by (simp add: ex_env_def)
  from verify_succeeds_at_most_once [OF u ex_verify l r, of "ex_env 50"] f u ex_verify
  show ?thesis by blast
qed

lemmas ex_defs3 = ex_defs2 ex_cfg_len_def ex_cfg_max_def ex_phone_def

lemmas insert_defs = otp_Create_def varchar_def rune_size_def

lemmas verify_defs = VerifyOTP_def VerifyOTP_found_def GetActiveBySessionTokenAndCode_def MarkAsUsed_def
      GetByPhoneNumber_def user_Create_def UpdateLastLogin_def


text \<open>
  C10 at concrete stores: the user lookup fails; the insert of the new user fails; the
  last-login update of a known user fails. Each time the challenge is left used, and the
  retry is answered with \<open>invalid or expired OTP\<close>.
\<close>

theorem challenge_consumed_before_user_resolution_witness:
  "VerifyOTP (ex_env_fault 10 DB_Select_User) ex_token ''123456'' ex_db1 =
     (Inl (Wrapf ''failed to get user''
            (Wrapf ''failed to get user by phone number'' (Driver ''connection refused''))),
      ex_mark ex_db1) \<and>
   VerifyOTP (ex_env_fault 10 DB_Insert_User) ex_token ''123456'' ex_db1 =
     (Inl (Wrapf ''failed to create user''
            (Wrapf ''failed to create user'' (Driver ''connection refused''))),
      ex_mark ex_db1) \<and>
   VerifyOTP (ex_env_fault 10 DB_Update_User) ex_token ''123456'' ex_db_user =
     (Inl (Wrapf ''failed to update last login''
            (Wrapf ''failed to update last login'' (Driver ''connection refused''))),
      ex_mark ex_db_user) \<and>
   VerifyOTP (ex_env 20) ex_token ''123456'' (ex_mark ex_db1) =
     (Inl (Errorf ''invalid or expired OTP''), ex_mark ex_db1) \<and>
   VerifyOTP (ex_env 20) ex_token ''123456'' (ex_mark ex_db_user) =
     (Inl (Errorf ''invalid or expired OTP''), ex_mark ex_db_user)"
proof -
  let ?sel = "ex_env_fault 10 DB_Select_User" and ?ins = "ex_env_fault 10 DB_Insert_User"
    and ?upd = "ex_env_fault 10 DB_Update_User"
  have u: "tokens_unique ex_db1" "tokens_unique ex_db_user"
    by (simp_all add: tokens_unique_def ex_defs2 ex_db_user_def)
  have g: "GetActiveBySessionTokenAndCode ?sel ex_token ''123456'' ex_db1 = Inr (Some ex_row)"
    "GetActiveBySessionTokenAndCode ?ins ex_token ''123456'' ex_db1 = Inr (Some ex_row)"
    "GetActiveBySessionTokenAndCode ?upd ex_token ''123456'' ex_db_user = Inr (Some ex_row)"
    by (simp_all add: verify_defs ex_defs2 ex_db_user_def)
  have m: "MarkAsUsed ?sel (otp_ID ex_row) ex_db1 = (Inr (), ex_mark ex_db1)"
    "MarkAsUsed ?ins (otp_ID ex_row) ex_db1 = (Inr (), ex_mark ex_db1)"
    "MarkAsUsed ?upd (otp_ID ex_row) ex_db_user = (Inr (), ex_mark ex_db_user)"
    by (simp_all add: verify_defs ex_defs2 ex_db_user_def ex_mark_def Let_def)
  have f1: "GetByPhoneNumber ?sel (otp_PhoneNumber ex_row) (ex_mark ex_db1) =
              Inl (Wrapf ''failed to get user by phone number'' (Driver ''connection refused''))"
    by (simp add: verify_defs ex_defs2 ex_mark_def)
  have f2: "GetByPhoneNumber ?ins (otp_PhoneNumber ex_row) (ex_mark ex_db1) = Inr None"
    "user_Create ?ins \<lparr>user_ID = 0, user_PhoneNumber = otp_PhoneNumber ex_row,
                         user_RegisteredAt = 0, user_LastLoginAt = None,
                         user_IsActive = False\<rparr> (ex_mark ex_db1) =
       (Inl (Wrapf ''failed to create user'' (Driver ''connection refused'')), ex_mark ex_db1)"
    by (simp_all add: verify_defs ex_defs2 ex_mark_def)
  have f3: "GetByPhoneNumber ?upd (otp_PhoneNumber ex_row) (ex_mark ex_db_user) = Inr (Some ex_new_user)"
    "UpdateLastLogin ?upd (otp_PhoneNumber ex_row) (ex_mark ex_db_user) =
       (Inl (Wrapf ''failed to update last login'' (Driver ''connection refused'')), ex_mark ex_db_user)"
    by (simp_all add: verify_defs ex_defs2 ex_db_user_def ex_mark_def)
  have n: "env_fault (ex_env 20) DB_Select_OTP = None" by (simp add: ex_env_def)
  note c1 = challenge_consumed_before_user_resolution
      [where x = "Wrapf ''failed to get user by phone number'' (Driver ''connection refused'')"
         and step = "''failed to get user''" and ?d1.0 = "ex_mark ex_db1" and e' = "ex_env 20",
       OF u(1) g(1) m(1)]
  note c2 = challenge_consumed_before_user_resolution
      [where x = "Wrapf ''failed to create user'' (Driver ''connection refused'')"
         and step = "''failed to create user''" and ?d1.0 = "ex_mark ex_db1" and e' = "ex_env 20",
       OF u(1) g(2) m(2)]
  note c3 = challenge_consumed_before_user_resolution
      [where x = "Wrapf ''failed to update last login'' (Driver ''connection refused'')"
         and step = "''failed to update last login''" and ?d1.0 = "ex_mark ex_db_user"
         and e' = "ex_env 20",
       OF u(2) g(3) m(3)]
  from c1 f1 n have 1: "VerifyOTP ?sel ex_token ''123456'' ex_db1 =
     (Inl (Wrapf ''failed to get user''
            (Wrapf ''failed to get user by phone number'' (Driver ''connection refused''))),
      ex_mark ex_db1)"
    "VerifyOTP (ex_env 20) ex_token ''123456'' (ex_mark ex_db1) =
     (Inl (Errorf ''invalid or expired OTP''), ex_mark ex_db1)"
    by simp_all
  from c2 f2 have 2: "VerifyOTP ?ins ex_token ''123456'' ex_db1 =
     (Inl (Wrapf ''failed to create user''
            (Wrapf ''failed to create user'' (Driver ''connection refused''))),
      ex_mark ex_db1)"
    by simp
  from c3 f3 n have 3: "VerifyOTP ?upd ex_token ''123456'' ex_db_user =
     (Inl (Wrapf ''failed to update last login''
            (Wrapf ''failed to update last login'' (Driver ''connection refused''))),
      ex_mark ex_db_user)"
    "VerifyOTP (ex_env 20) ex_token ''123456'' (ex_mark ex_db_user) =
     (Inl (Errorf ''invalid or expired OTP''), ex_mark ex_db_user)"
    by simp_all
  show ?thesis using 1 2 3 by simp
qed

text \<open>
  C4 at a concrete store: a request finds the challenge, a second request consumes it, and
  the first request's update affects no row.
\<close>

theorem mark_zero_rows_is_internal_error_witness:
  "GetActiveBySessionTokenAndCode (ex_env 9) ex_token ''123456'' ex_db1 = Inr (Some ex_row) \<and>
   VerifyOTP_found (ex_env 12) ex_row ex_raced =
     (Inl (Wrapf ''failed to mark OTP as used'' (Errorf ''OTP not found or already used'')), ex_raced) \<and>
   VerifyOTP_respond ex_js (ex_env 12) (fst (VerifyOTP_found (ex_env 12) ex_row ex_raced)) ex_redis0 =
     (JSON 500 (ErrorBody ''Failed to verify OTP'' ''Internal server error''), ex_redis0)"
proof -
  have g: "GetActiveBySessionTokenAndCode (ex_env 9) ex_token ''123456'' ex_db1 = Inr (Some ex_row)"
    by (simp add: verify_defs ex_defs2)
  have f: "env_fault (ex_env 12) DB_Update_OTP = None" by (simp add: ex_env_def)
  have z: "\<forall>r \<in> set (otps ex_raced). otp_ID r = otp_ID ex_row \<longrightarrow> otp_IsUsed r"
    by (simp add: ex_raced_eq)
  from mark_zero_rows_is_internal_error [OF f z, of ex_js ex_redis0] g
  show ?thesis by blast
qed

text \<open>
  C4 as stated fails there: the update affects zero rows, and the result is not
  \<open>invalid or expired OTP\<close>; the caller sees status 500 where a wrong code gives 401.
\<close>

theorem mark_zero_rows_not_invalid_or_expired:
  "env_fault (ex_env 12) DB_Update_OTP = None \<and>
   length (filter (\<lambda>r. otp_ID r = otp_ID ex_row \<and> \<not> otp_IsUsed r) (otps ex_raced)) = 0 \<and>
   fst (VerifyOTP_found (ex_env 12) ex_row ex_raced) \<noteq> Inl (Errorf ''invalid or expired OTP'') \<and>
   status (fst (VerifyOTP_respond ex_js (ex_env 12)
                 (fst (VerifyOTP_found (ex_env 12) ex_row ex_raced)) ex_redis0)) = 500 \<and>
   status (fst (VerifyOTP_respond ex_js (ex_env 12)
                 (fst (VerifyOTP (ex_env 12) ex_token ''000000'' ex_db1)) ex_redis0)) = 401"
  unfolding ex_raced_eq
  by (simp add: verify_defs VerifyOTP_respond_def ex_defs2 Let_def)

text \<open>C7 at a concrete store whose write fails.\<close>

theorem GenerateToken_store_failure_tolerated_witness:
  "fst (GenerateToken ex_js (ex_env_fault 0 Redis_Set_Token) ex_user ex_redis0) =
     Inr \<lparr>auth_Token = ''jwt:user:7'', auth_User = ex_user, auth_ExpiresAt = ex_t 86400,
          auth_Message = ''Authentication successful''\<rparr> \<and>
   snd (GenerateToken ex_js (ex_env_fault 0 Redis_Set_Token) ex_user ex_redis0) = ex_redis0"
proof -
  have s: "SignedString (svc_jwt ex_js) (JWT_Secret (svc_cfg ex_js))
             (token_claims ex_js (ex_env_fault 0 Redis_Set_Token) ex_user) = Inr ''jwt:user:7''"
    by (simp add: ex_js_def ex_jwt_def token_claims_def ex_user_def Itoa_def itoa7)
  have a: "svc_tokenService ex_js \<and>
           env_fault (ex_env_fault 0 Redis_Set_Token) Redis_Set_Token = Some ''connection refused''"
    by (simp add: ex_js_def ex_env_fault_def)
  have t: "time_Add (env_now (ex_env_fault 0 Redis_Set_Token)) (JWT_ExpirationTime (svc_cfg ex_js)) = ex_t 86400"
    by (simp add: ex_defs2 time_Add_def)
  from GenerateToken_store_failure_tolerated [OF s, of ex_redis0 "''connection refused''"] a t
  show ?thesis by simp
qed

text \<open>C6 at a concrete store, with the read of the check failing.\<close>

theorem rate_limit_read_failure_blocks_issuance_witness:
  "SendOTP ex_cfg (ex_env_fault 0 RL_Get_Check) ex_phone (ex_db0, ex_redis0) =
        (Inl (SendFailed (Wrapf ''failed to check rate limit''
               (Wrapf ''failed to get rate limit info''
                 (Wrapf ''failed to get rate limit info'' (Driver ''connection refused''))))),
         ex_db0, ex_redis0)"
proof -
  have "env_fault (ex_env_fault 0 RL_Get_Check) RL_Get_Check = Some ''connection refused''"
    by (simp add: ex_env_fault_def)
  with rate_limit_read_failure_blocks_issuance
         [of "ex_env_fault 0 RL_Get_Check" "''connection refused''" ex_cfg ex_phone ex_db0 ex_redis0]
  show ?thesis by blast
qed

lemma itoa_123456: "itoa 123456 = ''123456''"
  by (simp add: itoa.simps digit_char_def)

lemma ex_code: "generateOTPCode ex_cfg (ex_env_fault k c) = Inr ''123456'' \<or> c = Rand_Int"
  by (simp add: generateOTPCode_def ex_defs2 Sprintf_pad_def itoa.simps [of 6] digit_char_def
      tooLarge_def itoa_123456)

text \<open>
  C6 as stated fails when the write of the rate-limit record fails: the send succeeds and no
  record is stored for the phone number.
\<close>

theorem unmetered_send_succeeds:
  "env_fault (ex_env_fault 0 RL_Set) RL_Set = Some ''connection refused'' \<and>
   fst (SendOTP ex_cfg (ex_env_fault 0 RL_Set) ex_phone (ex_db0, ex_redis0)) =
     Inr \<lparr>resp_Message = ''OTP sent successfully'', resp_Token = ex_token,
          resp_PhoneNumber = ex_phone, resp_ExpiresAt = ex_t 120\<rparr> \<and>
   stored (snd (snd (SendOTP ex_cfg (ex_env_fault 0 RL_Set) ex_phone (ex_db0, ex_redis0))))
     (ex_t 0) ex_phone = None"
  using ex_code [of 0 RL_Set]
  by (simp add: IsRateLimited_def GetRateLimit_def redis_defs generateSessionToken_def insert_defs
      updateRateLimit_def UpdateRateLimit_def stored_def hex_def digit_char_def Itoa_def
      itoa.simps [of 0] time_Add_def time_Sub_def maxDuration_def minDuration_def IsZero_def ex_defs3)

lemma replicate5: "replicate 5 c = [c, c, c, c, c]"
  by (simp add: numeral_eq_Suc)

lemma itoa_small: "itoa 0 = ''0''" "itoa 4 = ''4''" "itoa 6 = ''6''" "itoa 3456 = ''3456''"
  by (simp_all add: itoa.simps digit_char_def)

text \<open>C9 with length 4.\<close>

theorem generated_code_fails_len_6_validation_witness:
  "generateOTPCode (ex_cfg_len 4) (ex_env 0) = Inr ''3456'' \<and>
   OTPController_VerifyOTP ex_js (ex_env 10) (Inr \<lparr>req_Token = ex_token, req_Code = ''3456''\<rparr>)
       (ex_db1, ex_redis0) =
     (JSON 400 (ErrorBody ''Validation failed''
                 ''validation failed: code must be exactly 6 characters long''), ex_db1, ex_redis0)"
proof -
  have g: "generateOTPCode (ex_cfg_len 4) (ex_env 0) = Inr ''3456''"
    by (simp add: generateOTPCode_def ex_defs3 Sprintf_pad_def itoa_small tooLarge_def)
  have n: "OTP_Length (ex_cfg_len 4) \<noteq> 6" "OTP_Length (ex_cfg_len 4) \<noteq> - 6"
    by (simp_all add: ex_cfg_len_def)
  have v: "ValidateStruct \<lparr>req_Token = ex_token, req_Code = ''3456''\<rparr> =
           Some (Errorf ''validation failed: code must be exactly 6 characters long'')"
    by (simp add: ValidateStruct_def rune_size_def ex_token_def)
  from generated_code_fails_len_6_validation [OF g n, of "ex_token" ex_js "ex_env 10" ex_db1 ex_redis0] g v
  show ?thesis by auto
qed

lemma ex_sent_neg_eq: "ex_sent_neg =
   (\<lparr>otps = [\<lparr>otp_ID = 1, otp_PhoneNumber = ex_phone, otp_Code = ''0     '',
               otp_SessionToken = ex_token, otp_ExpiresAt = ex_t 120, otp_IsUsed = False,
               otp_CreatedAt = ex_t 0, otp_UsedAt = None\<rparr>],
     otps_id_seq = 2, users = [], users_id_seq = 1\<rparr>,
    snd ex_sent_neg)"
  unfolding ex_sent_neg_def
  by (simp add: IsRateLimited_def GetRateLimit_def redis_defs generateSessionToken_def insert_defs
      generateOTPCode_def Sprintf_pad_def itoa_small tooLarge_def replicate5
      hex_def digit_char_def Itoa_def time_Add_def time_Sub_def maxDuration_def minDuration_def
      ex_defs3 prod_eq_iff)

text \<open>
  C9 as stated fails for the length -6: the generated code is \<open>0\<close> followed by five
  spaces, six characters that pass the tag, and the endpoint verifies the challenge that
  \<open>SendOTP\<close> issued under that configuration.
\<close>

theorem negative_length_code_passes_validation:
  "OTP_Length (ex_cfg_len (- 6)) \<noteq> 6 \<and>
   generateOTPCode (ex_cfg_len (- 6)) (ex_env 0) = Inr ''0     '' \<and>
   ValidateStruct \<lparr>req_Token = ex_token, req_Code = ''0     ''\<rparr> = None \<and>
   status (fst (OTPController_VerifyOTP ex_js (ex_env 10)
                  (Inr \<lparr>req_Token = ex_token, req_Code = ''0     ''\<rparr>) ex_sent_neg)) = 200"
proof -
  have g: "generateOTPCode (ex_cfg_len (- 6)) (ex_env 0) = Inr ''0     ''"
    by (simp add: generateOTPCode_def ex_defs3 Sprintf_pad_def itoa_small tooLarge_def replicate5)
  have v: "ValidateStruct \<lparr>req_Token = ex_token, req_Code = ''0     ''\<rparr> = None"
    by (simp add: ValidateStruct_def rune_size_def ex_token_def)
  have s: "status (fst (OTPController_VerifyOTP ex_js (ex_env 10)
                  (Inr \<lparr>req_Token = ex_token, req_Code = ''0     ''\<rparr>) ex_sent_neg)) = 200"
    by (subst ex_sent_neg_eq)
       (simp add: v [unfolded ex_token_def] verify_defs VerifyOTP_respond_def GenerateToken_def
          token_claims_def Let_def ex_defs3 split: prod.splits)
  show ?thesis using g v s by (simp add: ex_cfg_len_def)
qed

text \<open>
  C3 as stated fails for the maximum 0: the first send, which the claim counts as request
  N+1, is allowed and stores count 1.
\<close>

theorem first_send_allowed_with_zero_limit:
  "RateLimit_MaxRequests (ex_cfg_max 0) = 0 \<and>
   stored ex_redis0 (ex_t 0) ex_phone = None \<and>
   fst (SendOTP (ex_cfg_max 0) (ex_env 0) ex_phone (ex_db0, ex_redis0)) =
     Inr \<lparr>resp_Message = ''OTP sent successfully'', resp_Token = ex_token,
          resp_PhoneNumber = ex_phone, resp_ExpiresAt = ex_t 120\<rparr> \<and>
   map_option rl_RequestCount
     (stored (snd (snd (SendOTP (ex_cfg_max 0) (ex_env 0) ex_phone (ex_db0, ex_redis0))))
        (ex_t 0) ex_phone) = Some 1"
  by (simp add: IsRateLimited_def GetRateLimit_def redis_defs generateSessionToken_def insert_defs
      generateOTPCode_def Sprintf_pad_def itoa_small tooLarge_def itoa_123456
      updateRateLimit_def UpdateRateLimit_def stored_def hex_def digit_char_def Itoa_def
      time_Add_def time_Sub_def maxDuration_def minDuration_def IsZero_def ex_defs3)

lemma ex_env_at_no_faults: "no_faults (ex_env_at k us)"
  by (simp add: no_faults_def ex_env_at_def ex_env_def)

lemma ex_phone_stored: "varchar 15 ex_phone = Inr ex_phone"
  by (simp add: varchar_def rune_size_def ex_phone_def)

text \<open>
  The last millisecond of the window, with the default configuration (three requests in ten
  minutes). The window starts half a millisecond after a full second; the third send comes
  120.0004 seconds later, and its record is stored with \<open>PX 479999\<close>. A fourth send 300
  microseconds before the end of the window finds the record expired and is allowed.
\<close>

lemma fourth_send_allowed_in_last_millisecond:
  "\<exists>resp1 resp2 resp3 resp4 s1 s2 s3 s4.
     SendOTP ex_cfg (ex_env_at 0 500) ex_phone (ex_db0, ex_redis0) = (Inr resp1, s1) \<and>
     SendOTP ex_cfg (ex_env_at 60 500) ex_phone s1 = (Inr resp2, s2) \<and>
     SendOTP ex_cfg (ex_env_at 120 900) ex_phone s2 = (Inr resp3, s3) \<and>
     SendOTP ex_cfg (ex_env_at 600 200) ex_phone s3 = (Inr resp4, s4) \<and>
     env_now (ex_env_at 600 200) <
       env_now (ex_env_at 0 500) + RateLimit_WindowDuration ex_cfg \<and>
     RateLimit_MaxRequests ex_cfg = 3"
proof -
  let ?e1 = "ex_env_at 0 500" and ?e2 = "ex_env_at 60 500" and ?e3 = "ex_env_at 120 900"
    and ?e4 = "ex_env_at 600 200"
  let ?info = "\<lambda>n last. \<lparr>rl_PhoneNumber = ex_phone, rl_RequestCount = n,
                 rl_LastRequestAt = last, rl_WindowStartAt = ex_t 0 + 500000\<rparr>"
  let ?r = "\<lambda>n last x. ex_redis0\<lparr>rate_limit := (\<lambda>k. None)(ex_phone \<mapsto> (?info n last, Some x))\<rparr>"
  note defs = IsRateLimited_def updateRateLimit_def UpdateRateLimit_def GetRateLimit_def redis_defs
    ex_env_at_def ex_defs time_Sub_def time_Add_def IsZero_def maxDuration_def minDuration_def
  have code: "- 1000000 \<le> OTP_Length ex_cfg" "OTP_Length ex_cfg \<le> 10"
    by (simp_all add: ex_cfg_def)
  have tok: "distinct (map issued [?e1, ?e2, ?e3, ?e4])"
    by (simp add: issued_def ex_env_at_def ex_env_def Itoa_def itoa.simps digit_char_def hex_def)
  have c1: "IsRateLimited ex_cfg ?e1 ex_phone ex_redis0 = Inr False" by (simp add: defs)
  have u1: "snd (updateRateLimit ex_cfg ?e1 ex_phone ex_redis0) =
            ?r 1 (ex_t 0 + 500000) (mstime (ex_t 600))"
    by (simp add: defs fun_eq_iff)
  have c2: "IsRateLimited ex_cfg ?e2 ex_phone (?r 1 (ex_t 0 + 500000) (mstime (ex_t 600))) = Inr False"
    by (simp add: defs)
  have u2: "snd (updateRateLimit ex_cfg ?e2 ex_phone (?r 1 (ex_t 0 + 500000) (mstime (ex_t 600)))) =
            ?r 2 (ex_t 60 + 500000) (mstime (ex_t 600))"
    by (simp add: defs fun_eq_iff)
  have c3: "IsRateLimited ex_cfg ?e3 ex_phone (?r 2 (ex_t 60 + 500000) (mstime (ex_t 600))) = Inr False"
    by (simp add: defs)
  have u3: "snd (updateRateLimit ex_cfg ?e3 ex_phone (?r 2 (ex_t 60 + 500000) (mstime (ex_t 600)))) =
            ?r 3 (ex_t 120 + 900000) (mstime (ex_t 600) - 1)"
    by (simp add: defs fun_eq_iff)
  have c4: "IsRateLimited ex_cfg ?e4 ex_phone (?r 3 (ex_t 120 + 900000) (mstime (ex_t 600) - 1)) = Inr False"
    by (simp add: defs)
  let ?R1 = "?r 1 (ex_t 0 + 500000) (mstime (ex_t 600))"
  let ?R2 = "?r 2 (ex_t 60 + 500000) (mstime (ex_t 600))"
  let ?R3 = "?r 3 (ex_t 120 + 900000) (mstime (ex_t 600) - 1)"
  have f1: "issued ?e1 \<notin> set (map otp_SessionToken (otps ex_db0))" by (simp add: ex_db0_def)
  from send_ok_prefix [OF ex_env_at_no_faults f1 c1 ex_phone_stored code] obtain resp1 d1 where
    s1: "SendOTP ex_cfg ?e1 ex_phone (ex_db0, ex_redis0) =
           (Inr resp1, d1, snd (updateRateLimit ex_cfg ?e1 ex_phone ex_redis0))"
    and d1: "set (map otp_SessionToken (otps d1)) =
               insert (issued ?e1) (set (map otp_SessionToken (otps ex_db0)))"
    by blast
  have f2: "issued ?e2 \<notin> set (map otp_SessionToken (otps d1))"
    using tok unfolding d1 by (auto simp: ex_db0_def)
  from send_ok_prefix [OF ex_env_at_no_faults f2 c2 ex_phone_stored code] obtain resp2 d2 where
    s2: "SendOTP ex_cfg ?e2 ex_phone (d1, ?R1) =
           (Inr resp2, d2, snd (updateRateLimit ex_cfg ?e2 ex_phone ?R1))"
    and d2: "set (map otp_SessionToken (otps d2)) =
               insert (issued ?e2) (set (map otp_SessionToken (otps d1)))"
    by blast
  have f3: "issued ?e3 \<notin> set (map otp_SessionToken (otps d2))"
    using tok unfolding d2 d1 by (auto simp: ex_db0_def)
  from send_ok_prefix [OF ex_env_at_no_faults f3 c3 ex_phone_stored code] obtain resp3 d3 where
    s3: "SendOTP ex_cfg ?e3 ex_phone (d2, ?R2) =
           (Inr resp3, d3, snd (updateRateLimit ex_cfg ?e3 ex_phone ?R2))"
    and d3: "set (map otp_SessionToken (otps d3)) =
               insert (issued ?e3) (set (map otp_SessionToken (otps d2)))"
    by blast
  have f4: "issued ?e4 \<notin> set (map otp_SessionToken (otps d3))"
    using tok unfolding d3 d2 d1 by (auto simp: ex_db0_def)
  from send_ok_prefix [OF ex_env_at_no_faults f4 c4 ex_phone_stored code] obtain resp4 d4 where
    s4: "SendOTP ex_cfg ?e4 ex_phone (d3, ?R3) =
           (Inr resp4, d4, snd (updateRateLimit ex_cfg ?e4 ex_phone ?R3))"
    by blast
  have w: "env_now ?e4 < env_now ?e1 + RateLimit_WindowDuration ex_cfg"
    by (simp add: ex_env_at_def ex_defs)
  have n: "RateLimit_MaxRequests ex_cfg = 3" by (simp add: ex_cfg_def)
  from s1 [unfolded u1] s2 [unfolded u2] s3 [unfolded u3] s4 w n show ?thesis by blast
qed

text \<open>C3 with the default configuration: three sends, a fourth rejected, a fifth after ten minutes.\<close>

theorem rate_limit_window_witness:
  "length (fst ex_three_sends) = 3 \<and>
   map_option rl_RequestCount (stored (snd (snd ex_three_sends)) (ex_t 180) ex_phone) = Some 3 \<and>
   SendOTP ex_cfg (ex_env 180) ex_phone (snd ex_three_sends) =
     (Inl (RateLimitExceeded 3 (10 * Minute)), snd ex_three_sends) \<and>
   (\<exists>resp. fst (SendOTP ex_cfg (ex_env 600) ex_phone (snd ex_three_sends)) = Inr resp) \<and>
   map_option rl_RequestCount
     (stored (snd (snd (SendOTP ex_cfg (ex_env 600) ex_phone (snd ex_three_sends)))) (ex_t 600) ex_phone)
     = Some 1 \<and>
   map_option rl_WindowStartAt
     (stored (snd (snd (SendOTP ex_cfg (ex_env 600) ex_phone (snd ex_three_sends)))) (ex_t 600) ex_phone)
     = Some (ex_t 600)"
proof -
  let ?over = "SendOTP ex_cfg (ex_env 180) ex_phone (snd ex_three_sends)"
  let ?next = "SendOTP ex_cfg (ex_env 600) ex_phone (snd ?over)"
  have W: "RateLimit_WindowDuration ex_cfg \<le> maxDuration"
    by (simp add: ex_defs maxDuration_def)
  have len: "length (ex_env 0 # [ex_env 60, ex_env 120]) = nat (max (RateLimit_MaxRequests ex_cfg) 1)"
    by (simp add: ex_cfg_def)
  have epoch: "unix_epoch \<le> env_now (ex_env 0)" by (simp add: ex_defs)
  have start: "window_over ex_cfg (env_now (ex_env 0)) ex_phone ex_redis0"
    by (simp add: window_over_def stored_def redis_GET_def ex_redis0_def)
  have within: "\<forall>e \<in> set ([ex_env 60, ex_env 120] @ [ex_env 180]).
       env_now (ex_env 0) \<le> env_now e \<and>
       env_now e + Millisecond \<le> env_now (ex_env 0) + RateLimit_WindowDuration ex_cfg"
    by (simp add: ex_defs Millisecond_def)
  note phone = ex_phone_stored
  have code: "- 1000000 \<le> OTP_Length ex_cfg" "OTP_Length ex_cfg \<le> 10"
    by (simp_all add: ex_cfg_def)
  have after: "RateLimit_WindowDuration ex_cfg \<le> env_now (ex_env 600) - env_now (ex_env 0)"
    by (simp add: ex_defs)
  have nf: "\<forall>e \<in> set (ex_env 0 # [ex_env 60, ex_env 120] @ [ex_env 180, ex_env 600]). no_faults e"
    by (simp add: no_faults_def ex_env_def Itoa_def)
  have fr1: "distinct (map issued (ex_env 0 # [ex_env 60, ex_env 120] @ [ex_env 600]))"
    by (simp add: issued_def ex_env_def Itoa_def itoa.simps digit_char_def hex_def)
  have fr2: "\<forall>e \<in> set (ex_env 0 # [ex_env 60, ex_env 120] @ [ex_env 600]).
                issued e \<notin> set (map otp_SessionToken (otps ex_db0))"
    by (simp add: ex_db0_def)
  have r1: "send_all ex_cfg ex_phone (ex_env 0 # [ex_env 60, ex_env 120]) (ex_db0, ex_redis0) =
            (fst ex_three_sends, snd ex_three_sends)"
    by (simp add: ex_three_sends_def)
  have r2: "?over = (fst ?over, snd ?over)" by simp
  have r3: "?next = (fst ?next, snd ?next)" by simp
  from rate_limit_window [OF W len epoch start within after nf fr1 fr2 phone code r1 r2 r3]
  have c: "length (fst ex_three_sends) = nat (max (RateLimit_MaxRequests ex_cfg) 1)"
    "map_option rl_RequestCount (stored (snd (snd ex_three_sends)) (env_now (ex_env 180)) ex_phone) =
       Some (max (RateLimit_MaxRequests ex_cfg) 1)"
    "fst ?over = Inl (RateLimitExceeded (RateLimit_MaxRequests ex_cfg) (RateLimit_WindowDuration ex_cfg))"
    "snd ?over = snd ex_three_sends"
    "\<exists>resp. fst ?next = Inr resp"
    "map_option rl_RequestCount (stored (snd (snd ?next)) (env_now (ex_env 600)) ex_phone) = Some 1"
    "map_option rl_WindowStartAt (stored (snd (snd ?next)) (env_now (ex_env 600)) ex_phone) =
       Some (env_now (ex_env 600))"
    by blast+
  have o: "?over = (Inl (RateLimitExceeded 3 (10 * Minute)), snd ex_three_sends)"
    using c(3,4) by (simp add: prod_eq_iff ex_cfg_def)
  show ?thesis using c(1,2,5,6,7) o unfolding c(4)
    by (simp add: ex_cfg_def ex_env_def)
qed

lemma validate_needs_record:
  assumes "svc_tokenService s" and "ValidateToken s e tok r = (Inr claims, r1)"
  shows "ParseWithClaims (svc_jwt s) (JWT_Secret (svc_cfg s)) (env_now e) tok = Inr claims \<and>
         (\<exists>info. redis_GET (token r) (env_now e) (hashToken s tok) = Some info)"
  using assms
  by (auto simp: ValidateToken_def token_ValidateToken_def Let_def
      split: sum.splits option.splits prod.splits)

lemma revoke_then_validate:
  assumes "svc_tokenService s" and "RevokeToken s e tok r = (Inr (), r1)"
  shows "\<exists>err. ValidateToken s e' tok r1 = (Inl err, r1)"
  using validate_absent [OF assms(1) revoke_deletes [OF assms]] .

end
